theory Spec2Isabelle
  imports Complex_Main "HOL-Library.Word" "HOL-Library.AList"
begin

unbundle bit_operations_syntax

section \<open>Adaptive CUSUM (adaptiveCusum.h, adaptiveCusum.cpp)\<close>

text \<open>
  The class \<^verbatim>\<open>AdaptiveCUSUM\<close> (the field \<^verbatim>\<open>span_\<close> is written \<open>span\<close>). Its \<^verbatim>\<open>double\<close> fields are modelled as real numbers
  (rounding, infinities and NaN are not modelled), \<^verbatim>\<open>uint32_t\<close> fields as 32-bit
  words, and the time point \<^verbatim>\<open>lastAlert\<close> as an integer number of clock ticks.
\<close>

record AdaptiveCUSUM =
  c :: real
  alpha :: real
  m :: real
  v :: real
  SH :: real
  SL :: real
  first :: bool
  span :: "32 word"
  thresholdHigh :: real
  thresholdLow :: real
  maxSH :: real
  maxSL :: real
  windowID :: "32 word"
  lastAlert :: int

text \<open>
  The constructor initialises every field except \<^verbatim>\<open>m\<close> and \<^verbatim>\<open>v\<close>, which C++ leaves
  indeterminate; their initial contents are the parameters \<open>m0\<close> and \<open>v0\<close>. The time
  point is value-initialised to the epoch.
\<close>

definition AdaptiveCUSUM_new :: "real \<Rightarrow> real \<Rightarrow> 32 word \<Rightarrow> real \<Rightarrow> real \<Rightarrow> AdaptiveCUSUM" where
  "AdaptiveCUSUM_new c0 alpha0 span0 m0 v0 =
     \<lparr>c = c0, alpha = alpha0, m = m0, v = v0, SH = 0, SL = 0, first = True, span = span0,
      thresholdHigh = 0, thresholdLow = 0, maxSH = 0, maxSL = 0, windowID = 0, lastAlert = 0\<rparr>"

definition setThresholdHigh :: "AdaptiveCUSUM \<Rightarrow> real \<Rightarrow> AdaptiveCUSUM" where
  "setThresholdHigh acu threshold = acu\<lparr>thresholdHigh := threshold\<rparr>"

definition setThresholdLow :: "AdaptiveCUSUM \<Rightarrow> real \<Rightarrow> AdaptiveCUSUM" where
  "setThresholdLow acu threshold = acu\<lparr>thresholdLow := threshold\<rparr>"

definition isPositiveAnomaly :: "AdaptiveCUSUM \<Rightarrow> real \<Rightarrow> bool" where
  "isPositiveAnomaly acu multiplier = (SH acu > thresholdHigh acu * multiplier)"

definition isNegativeAnomaly :: "AdaptiveCUSUM \<Rightarrow> real \<Rightarrow> bool" where
  "isNegativeAnomaly acu multiplier = (SL acu > thresholdLow acu * multiplier)"

definition setLastAlert :: "AdaptiveCUSUM \<Rightarrow> int \<Rightarrow> AdaptiveCUSUM" where
  "setLastAlert acu alertTime = acu\<lparr>lastAlert := alertTime\<rparr>"

text \<open>
  \<^verbatim>\<open>AdaptiveCUSUM::process\<close>, statement by statement: the early return of the first
  call, then the updates of \<^verbatim>\<open>m\<close>, \<^verbatim>\<open>v\<close>, the guarded updates of \<^verbatim>\<open>SH\<close> and \<^verbatim>\<open>SL\<close>,
  the running maxima and the window counter (which wraps at \<open>2^32\<close>).
\<close>

definition process :: "AdaptiveCUSUM \<Rightarrow> real \<Rightarrow> bool \<Rightarrow> AdaptiveCUSUM" where
  "process acu currentValue learning =
     (if first acu then acu\<lparr>m := currentValue, v := 0, first := False\<rparr>
      else
        let diff = currentValue - m acu;
            incr = alpha acu * diff;
            a1 = acu\<lparr>m := m acu + incr\<rparr>;
            a2 = a1\<lparr>v := (1 - alpha a1) * v a1 + alpha a1 * diff * diff\<rparr>;
            a3 = (if (\<not> learning) \<or> (windowID a2 \<ge> span a2)
                  then
                    let b = a2\<lparr>SH := max 0 (SH a2 + (currentValue - m a2) - c a2 * sqrt (v a2))\<rparr>
                    in b\<lparr>SL := max 0 (SL b - (currentValue - m b) - c b * sqrt (v b))\<rparr>
                  else a2);
            a4 = a3\<lparr>maxSH := max (SH a3) (maxSH a3)\<rparr>;
            a5 = a4\<lparr>maxSL := max (SL a4) (maxSL a4)\<rparr>
        in a5\<lparr>windowID := windowID a5 + 1\<rparr>)"

text \<open>A sequence of \<^verbatim>\<open>process\<close> calls on one instance, each with its sample and its
  learning flag.\<close>

definition process_all :: "AdaptiveCUSUM \<Rightarrow> (real \<times> bool) list \<Rightarrow> AdaptiveCUSUM" where
  "process_all acu calls = foldl (\<lambda>a (x, l). process a x l) acu calls"

section \<open>Flow records and quantiles (common.h)\<close>

record netflowRecord =
  srcAddr :: "32 word"
  dstAddr :: "32 word"
  packets :: "64 word"
  bytes :: "64 word"

text \<open>
  \<^verbatim>\<open>getQuantileSortedVec\<close>. Floats are modelled as reals and vector sizes as naturals.
  The cast of the non-negative position to \<^verbatim>\<open>uint32_t\<close> truncates, which is the floor.
  Both callers pass a non-empty vector.
\<close>

definition getQuantileSortedVec :: "real list \<Rightarrow> real \<Rightarrow> real" where
  "getQuantileSortedVec sortedVec quantile =
     (let index = real (length sortedVec - 1) * quantile;
          lowerIndex = nat \<lfloor>index\<rfloor>;
          upperIndex = lowerIndex + 1;
          interpolation = index - real lowerIndex
      in if upperIndex \<ge> length sortedVec then last sortedVec
         else sortedVec ! lowerIndex * (1 - interpolation)
              + sortedVec ! upperIndex * interpolation)"

section \<open>Bin-count sketch value (binCountSketchValue.h, binCountSketchValue.tpp)\<close>

text \<open>
  The class template is instantiated with \<^verbatim>\<open>noBits = 32\<close> only. The array
  \<^verbatim>\<open>binCount[32]\<close> is a list, of length 32 in every well-formed value.
\<close>

record binCountSketchValue =
  totalCount :: "32 word"
  binCount :: "32 word list"

definition binCountSketchValue_new :: "32 word \<Rightarrow> binCountSketchValue" where
  "binCountSketchValue_new initialValue =
     \<lparr>totalCount = initialValue,
      binCount = fold (\<lambda>i bc. bc[i := initialValue]) [0..<32] (replicate 32 0)\<rparr>"

text \<open>
  \<^verbatim>\<open>reverseKey\<close>: \<^verbatim>\<open>totalCount / 2\<close> is unsigned division; \<^verbatim>\<open>reversed |= (1 << i)\<close> sets
  bit \<open>i\<close> of the 32-bit key (for \<open>i = 31\<close> the \<^verbatim>\<open>int\<close> value \<^verbatim>\<open>1 << 31\<close> converts to the
  bitset with exactly bit 31 set).
\<close>

definition binCountSketchValue_reverseKey :: "binCountSketchValue \<Rightarrow> 32 word" where
  "binCountSketchValue_reverseKey b =
     fold (\<lambda>i reversed.
             if binCount b ! i > totalCount b div 2 then reversed OR push_bit i 1 else reversed)
          [0..<32] 0"

definition binCountSketchValue_update ::
  "binCountSketchValue \<Rightarrow> 32 word \<Rightarrow> 16 word \<Rightarrow> binCountSketchValue" where
  "binCountSketchValue_update b key val =
     b\<lparr>totalCount := totalCount b + ucast val,
       binCount := fold (\<lambda>i bc. if bit key i then bc[i := bc ! i + ucast val] else bc)
                        [0..<32] (binCount b)\<rparr>"

text \<open>\<^verbatim>\<open>operator-=\<close> and \<^verbatim>\<open>operator+=\<close> of \<^verbatim>\<open>binCountSketchValue\<close>.\<close>

definition binCountSketchValue_sub ::
  "binCountSketchValue \<Rightarrow> binCountSketchValue \<Rightarrow> binCountSketchValue" where
  "binCountSketchValue_sub b other =
     b\<lparr>totalCount := (if totalCount b < totalCount other then 0
                       else totalCount b - totalCount other),
       binCount := fold (\<lambda>i bc. bc[i := (if bc ! i < binCount other ! i then 0
                                           else bc ! i - binCount other ! i)])
                        [0..<32] (binCount b)\<rparr>"

definition binCountSketchValue_add ::
  "binCountSketchValue \<Rightarrow> binCountSketchValue \<Rightarrow> binCountSketchValue" where
  "binCountSketchValue_add b other =
     b\<lparr>totalCount := totalCount b + totalCount other,
       binCount := fold (\<lambda>i bc. bc[i := bc ! i + binCount other ! i])
                        [0..<32] (binCount b)\<rparr>"

section \<open>Destination aggregate (ddosDetectorValue.h, ddosDetectorValue.cpp)\<close>

text \<open>
  The two maps of the class are association lists with distinct keys; a loop over a map
  visits the entries in list order. The fields drop the trailing underscore of the
  source's names.
\<close>

record ddosDetectorValue =
  sentBytes :: "64 word"
  sentFlows :: "32 word"
  packetCount :: "32 word"
  byteCount :: "64 word"
  flowCount :: "32 word"
  reversibleKey :: binCountSketchValue
  communicatedWith :: "(32 word \<times> 32 word) list"
  ipSubnets :: "(8 word \<times> 32 word) list"

definition ddosDetectorValue_new :: ddosDetectorValue where
  "ddosDetectorValue_new =
     \<lparr>sentBytes = 0, sentFlows = 0, packetCount = 0, byteCount = 0, flowCount = 0,
      reversibleKey = binCountSketchValue_new 0, communicatedWith = [], ipSubnets = []\<rparr>"

text \<open>\<^verbatim>\<open>m[key] += val\<close> on a map: a missing key is first inserted with value 0.\<close>

definition map_add_entry :: "('k \<times> 32 word) list \<Rightarrow> 'k \<Rightarrow> 32 word \<Rightarrow> ('k \<times> 32 word) list" where
  "map_add_entry mp key val =
     AList.update key ((case map_of mp key of None \<Rightarrow> 0 | Some x \<Rightarrow> x) + val) mp"

text \<open>The body of the two loops of \<^verbatim>\<open>operator-=\<close>: \<^verbatim>\<open>find\<close>, then decrease or \<^verbatim>\<open>erase\<close>.\<close>

definition map_sub_entry :: "('k \<times> 32 word) list \<Rightarrow> 'k \<Rightarrow> 32 word \<Rightarrow> ('k \<times> 32 word) list" where
  "map_sub_entry mp key val =
     (case map_of mp key of
        None \<Rightarrow> mp
      | Some x \<Rightarrow> if x > val then AList.update key (x - val) mp else AList.delete key mp)"

text \<open>The loops \<^verbatim>\<open>for (auto& [key, value] : other.map)\<close> of \<^verbatim>\<open>operator-=\<close> and
  \<^verbatim>\<open>operator+=\<close>.\<close>

definition sub_entries :: "('k \<times> 32 word) list \<Rightarrow> ('k \<times> 32 word) list \<Rightarrow> ('k \<times> 32 word) list" where
  "sub_entries mp other = fold (\<lambda>(key, val) mp. map_sub_entry mp key val) other mp"

definition add_entries :: "('k \<times> 32 word) list \<Rightarrow> ('k \<times> 32 word) list \<Rightarrow> ('k \<times> 32 word) list" where
  "add_entries mp other = fold (\<lambda>(key, val) mp. map_add_entry mp key val) other mp"

definition ddosDetectorValue_update ::
  "ddosDetectorValue \<Rightarrow> 32 word \<Rightarrow> netflowRecord \<Rightarrow> ddosDetectorValue" where
  "ddosDetectorValue_update d key val =
     (let ipSubnet = (ucast (drop_bit 24 (dstAddr val)) :: 8 word);
          d1 = d\<lparr>ipSubnets := map_add_entry (ipSubnets d) ipSubnet 1\<rparr>;
          d2 = d1\<lparr>reversibleKey := binCountSketchValue_update (reversibleKey d1) (dstAddr val) 1\<rparr>;
          d3 = d2\<lparr>byteCount := byteCount d2 + bytes val\<rparr>;
          d4 = d3\<lparr>packetCount := packetCount d3 + ucast (packets val)\<rparr>
      in d4\<lparr>flowCount := flowCount d4 + 1\<rparr>)"

definition ddosDetectorValue_sub ::
  "ddosDetectorValue \<Rightarrow> ddosDetectorValue \<Rightarrow> ddosDetectorValue" where
  "ddosDetectorValue_sub d other =
     (let d1 = d\<lparr>reversibleKey := binCountSketchValue_sub (reversibleKey d) (reversibleKey other)\<rparr>;
          d2 = d1\<lparr>byteCount := (if byteCount other > byteCount d1 then 0
                                  else byteCount d1 - byteCount other)\<rparr>;
          d3 = d2\<lparr>packetCount := (if packetCount other > packetCount d2 then 0
                                    else packetCount d2 - packetCount other)\<rparr>;
          d4 = d3\<lparr>sentBytes := (if sentBytes other > sentBytes d3 then 0
                                  else sentBytes d3 - sentBytes other)\<rparr>;
          d5 = d4\<lparr>sentFlows := (if sentFlows other > sentFlows d4 then 0
                                  else sentFlows d4 - sentFlows other)\<rparr>;
          d6 = d5\<lparr>flowCount := (if flowCount other > flowCount d5 then 0
                                  else flowCount d5 - flowCount other)\<rparr>;
          d7 = d6\<lparr>communicatedWith :=
                    sub_entries (communicatedWith d6) (communicatedWith other)\<rparr>
      in d7\<lparr>ipSubnets := sub_entries (ipSubnets d7) (ipSubnets other)\<rparr>)"

definition ddosDetectorValue_add ::
  "ddosDetectorValue \<Rightarrow> ddosDetectorValue \<Rightarrow> ddosDetectorValue" where
  "ddosDetectorValue_add d other =
     (let d1 = d\<lparr>reversibleKey := binCountSketchValue_add (reversibleKey d) (reversibleKey other)\<rparr>;
          d2 = d1\<lparr>byteCount := byteCount d1 + byteCount other\<rparr>;
          d3 = d2\<lparr>packetCount := packetCount d2 + packetCount other\<rparr>;
          d4 = d3\<lparr>sentBytes := sentBytes d3 + sentBytes other\<rparr>;
          d5 = d4\<lparr>sentFlows := sentFlows d4 + sentFlows other\<rparr>;
          d6 = d5\<lparr>flowCount := flowCount d5 + flowCount other\<rparr>;
          d7 = d6\<lparr>ipSubnets := add_entries (ipSubnets d6) (ipSubnets other)\<rparr>
      in d7\<lparr>communicatedWith :=
                add_entries (communicatedWith d7) (communicatedWith other)\<rparr>)"

definition updateSentBytes :: "ddosDetectorValue \<Rightarrow> 64 word \<Rightarrow> ddosDetectorValue" where
  "updateSentBytes d sentBytes' =
     (let d1 = d\<lparr>sentBytes := sentBytes d + sentBytes'\<rparr>
      in d1\<lparr>sentFlows := sentFlows d1 + 1\<rparr>)"

definition updateFlowCounter :: "ddosDetectorValue \<Rightarrow> 32 word \<Rightarrow> ddosDetectorValue" where
  "updateFlowCounter d index = d\<lparr>communicatedWith := map_add_entry (communicatedWith d) index 1\<rparr>"

definition ddosDetectorValue_reverseKey :: "ddosDetectorValue \<Rightarrow> 32 word" where
  "ddosDetectorValue_reverseKey d = binCountSketchValue_reverseKey (reversibleKey d)"

section \<open>Count-Min sketch (CountMinSketch.h)\<close>

text \<open>
  Modelled from the spec: the class template \<^verbatim>\<open>CountMinSketch\<close> is
  declared in \<^verbatim>\<open>CountMinSketch.h\<close>, which is not among the sources; the detector uses
  its members \<^verbatim>\<open>operator[]\<close>, \<^verbatim>\<open>getCol\<close>, \<^verbatim>\<open>update\<close>, \<^verbatim>\<open>estimate\<close>, \<^verbatim>\<open>dec\<close> and
  \<^verbatim>\<open>reset\<close>, and the cell members \<^verbatim>\<open>count\<close> and \<^verbatim>\<open>value\<close>. The spec describes a table
  of \<open>d\<close> rows and \<open>w\<close> columns with one seeded hash function per row: the cell of key
  \<open>k\<close> on row \<open>i\<close> is at column \<open>h\<^sub>i(k) mod w\<close>; \<^verbatim>\<open>update\<close> increments the cell of the key
  on every row and updates its payload; \<^verbatim>\<open>estimate\<close> returns the (row, column) of the
  cell with the minimum count, ties broken by the lowest row index; \<^verbatim>\<open>dec\<close> subtracts on
  every row, never below zero; \<^verbatim>\<open>reset\<close> zeroes all cells and keeps the seeds. The hash
  functions are a parameter \<open>h\<close>: \<open>h i k\<close> is the hash of key \<open>k\<close> under the seed of row \<open>i\<close>.
  The payload operations of the value type are parameters as well.
\<close>

record 'v Cell =
  count :: "32 word"
  "value" :: 'v

type_synonym 'v CountMinSketch = "'v Cell list list"

type_synonym hashes = "nat \<Rightarrow> 32 word \<Rightarrow> nat"

definition CountMinSketch_new :: "nat \<Rightarrow> nat \<Rightarrow> 'v \<Rightarrow> 'v CountMinSketch" where
  "CountMinSketch_new outerSize innerSize v0 =
     replicate outerSize (replicate innerSize \<lparr>count = 0, value = v0\<rparr>)"

definition getCol :: "hashes \<Rightarrow> 'v CountMinSketch \<Rightarrow> 32 word \<Rightarrow> nat \<Rightarrow> nat" where
  "getCol h sk key i = h i key mod length (sk ! i)"

text \<open>Assignment through the reference \<^verbatim>\<open>sk[i][j]\<close>.\<close>

definition modify_cell ::
  "'v CountMinSketch \<Rightarrow> nat \<Rightarrow> nat \<Rightarrow> ('v Cell \<Rightarrow> 'v Cell) \<Rightarrow> 'v CountMinSketch" where
  "modify_cell sk i j f = sk[i := (sk ! i)[j := f (sk ! i ! j)]]"

text \<open>\<^verbatim>\<open>update\<close>: what is done to the cell of the key, and the loop over the rows.\<close>

definition update_cell :: "('v \<Rightarrow> 32 word \<Rightarrow> 'p \<Rightarrow> 'v) \<Rightarrow> 32 word \<Rightarrow> 'p \<Rightarrow> 'v Cell \<Rightarrow> 'v Cell" where
  "update_cell upd key payload cell =
     cell\<lparr>count := count cell + 1, value := upd (value cell) key payload\<rparr>"

definition update_row ::
  "('v \<Rightarrow> 32 word \<Rightarrow> 'p \<Rightarrow> 'v) \<Rightarrow> hashes \<Rightarrow> 32 word \<Rightarrow> 'p \<Rightarrow> nat \<Rightarrow> 'v CountMinSketch
     \<Rightarrow> 'v CountMinSketch" where
  "update_row upd h key payload i s =
     modify_cell s i (getCol h s key i) (update_cell upd key payload)"

definition CountMinSketch_update ::
  "('v \<Rightarrow> 32 word \<Rightarrow> 'p \<Rightarrow> 'v) \<Rightarrow> hashes \<Rightarrow> 'v CountMinSketch \<Rightarrow> 32 word \<Rightarrow> 'p
     \<Rightarrow> 'v CountMinSketch" where
  "CountMinSketch_update upd h sk key payload =
     fold (update_row upd h key payload) [0..<length sk] sk"

text \<open>\<^verbatim>\<open>estimate\<close>: the loop keeps the best cell so far and replaces it only by a
  strictly smaller count.\<close>

definition estimate_step ::
  "hashes \<Rightarrow> 'v CountMinSketch \<Rightarrow> 32 word \<Rightarrow> nat \<Rightarrow> nat \<times> nat \<Rightarrow> nat \<times> nat" where
  "estimate_step h sk key i best =
     (if count (sk ! i ! getCol h sk key i) < count (sk ! fst best ! snd best)
      then (i, getCol h sk key i) else best)"

definition CountMinSketch_estimate :: "hashes \<Rightarrow> 'v CountMinSketch \<Rightarrow> 32 word \<Rightarrow> nat \<times> nat" where
  "CountMinSketch_estimate h sk key =
     fold (estimate_step h sk key) [1..<length sk] (0, getCol h sk key 0)"

text \<open>\<^verbatim>\<open>dec\<close>: the saturating subtraction of a cell, and the loop over the rows.\<close>

definition dec_cell :: "('v \<Rightarrow> 'v \<Rightarrow> 'v) \<Rightarrow> 'v Cell \<Rightarrow> 'v Cell \<Rightarrow> 'v Cell" where
  "dec_cell sub cell x =
     x\<lparr>count := (if count x < count cell then 0 else count x - count cell),
       value := sub (value x) (value cell)\<rparr>"

definition dec_row ::
  "('v \<Rightarrow> 'v \<Rightarrow> 'v) \<Rightarrow> hashes \<Rightarrow> 32 word \<Rightarrow> 'v Cell \<Rightarrow> nat \<Rightarrow> 'v CountMinSketch
     \<Rightarrow> 'v CountMinSketch" where
  "dec_row sub h key cell i s = modify_cell s i (getCol h s key i) (dec_cell sub cell)"

definition CountMinSketch_dec ::
  "('v \<Rightarrow> 'v \<Rightarrow> 'v) \<Rightarrow> hashes \<Rightarrow> 'v CountMinSketch \<Rightarrow> 32 word \<Rightarrow> 'v Cell
     \<Rightarrow> 'v CountMinSketch" where
  "CountMinSketch_dec sub h sk key cell = fold (dec_row sub h key cell) [0..<length sk] sk"

definition CountMinSketch_reset :: "'v \<Rightarrow> 'v CountMinSketch \<Rightarrow> 'v CountMinSketch" where
  "CountMinSketch_reset v0 sk = map (map (\<lambda>_. \<lparr>count = 0, value = v0\<rparr>)) sk"

type_synonym BCSketchTypeDstIPs = "ddosDetectorValue CountMinSketch"
type_synonym BCSketchTypeSrcIPs = "binCountSketchValue CountMinSketch"

section \<open>The detector (ddosDetector.h, ddosDetector.cpp)\<close>

text \<open>
  The alert record. The set \<^verbatim>\<open>srcIPs\<close> is a list without duplicates; the field is
  written \<open>alertSrcIPs\<close> here, the detector having a member \<^verbatim>\<open>srcIPs\<close> of its own.
\<close>

record dos_alert =
  thresholdBytes :: real
  thresholdPackets :: real
  thresholdBytesReceivedToSent :: real
  thresholdFlowsReceivedToSent :: real
  thresholdEntropy :: real
  measuredBytes :: real
  measuredPackets :: real
  measuredBytesReceivedToSent :: real
  measuredFlowsReceivedToSent :: real
  measuredEntropy :: real
  dstIP :: "32 word"
  cusumID :: "32 word"
  alertSrcIPs :: "32 word list"

text \<open>
  The immutable members of the detector. The tries of \<^verbatim>\<open>trie.h\<close> are not among the
  sources.
  Modelled from the spec: \<open>protectedPrefixes ip\<close> is the result of the longest-prefix
  lookup \<^verbatim>\<open>searchPrefix\<close> of the address in the trie of protected prefixes: the
  sensitivity multiplier stored with the matching prefix, or \<open>None\<close> when no prefix
  matches; \<open>whitelistedPrefixes ip\<close> says whether the lookup in the whitelist trie
  succeeds. The hash functions of the two sketches are \<open>hashDst\<close> and \<open>hashSrc\<close>;
  \<open>outerSizeDstIPs\<close> and \<open>innerSizeDstIPs\<close> are the numbers of rows and of columns of the
  destination sketch, the latter also the length of the five vectors of CUSUMs.
  \<open>ticksPerSecond\<close> is the number of ticks of the system clock in a second.
\<close>

record detectorConfig =
  protectedPrefixes :: "32 word \<Rightarrow> real option"
  whitelistedPrefixes :: "32 word \<Rightarrow> bool"
  hashDst :: hashes
  hashSrc :: hashes
  outerSizeDstIPs :: nat
  innerSizeDstIPs :: nat
  learningSecs :: nat
  quantile :: real
  n_top :: int
  timeBetweenAlertsSecs :: int
  ticksPerSecond :: int

text \<open>The mutable members: the live sketches, the five vectors of CUSUMs and the two
  queues (first element first out).\<close>

record ddosDetector =
  dstIPs :: BCSketchTypeDstIPs
  srcIPs :: BCSketchTypeSrcIPs
  cusumBytes :: "AdaptiveCUSUM list"
  cusumPackets :: "AdaptiveCUSUM list"
  cusumEntropy :: "AdaptiveCUSUM list"
  cusumBytesReceivedToSent :: "AdaptiveCUSUM list"
  cusumFlowsReceivedToSent :: "AdaptiveCUSUM list"
  dosAlertsQueue :: "dos_alert list"
  dosFalsePositivesQueue :: "dos_alert list"

text \<open>What the source leaves to an exception or to undefined behaviour, and what the
  real numbers of this model cannot hold.\<close>

datatype error =
  OutOfRange           \<comment> \<open>\<^verbatim>\<open>std::out_of_range\<close> thrown by \<^verbatim>\<open>map::at\<close>\<close>
| InvalidArgument      \<comment> \<open>\<^verbatim>\<open>std::invalid_argument\<close> thrown by \<^verbatim>\<open>stof\<close>\<close>
| IndexOutOfBounds     \<comment> \<open>\<^verbatim>\<open>operator[]\<close> beyond the end of a vector: undefined behaviour\<close>
| NonFiniteDouble      \<comment> \<open>a \<^verbatim>\<open>double\<close> divided by zero: an infinity or NaN in the source\<close>

definition isProtected :: "detectorConfig \<Rightarrow> 32 word \<Rightarrow> bool" where
  "isProtected cfg inputIP = (protectedPrefixes cfg inputIP \<noteq> None)"

definition isWhitelisted :: "detectorConfig \<Rightarrow> 32 word \<Rightarrow> bool" where
  "isWhitelisted cfg inputIP =
     (protectedPrefixes cfg inputIP \<noteq> None \<or> whitelistedPrefixes cfg inputIP)"

definition getMultiplier :: "detectorConfig \<Rightarrow> 32 word \<Rightarrow> real" where
  "getMultiplier cfg ip = (case protectedPrefixes cfg ip of None \<Rightarrow> 0.0 | Some result \<Rightarrow> result)"

subsection \<open>Ingress\<close>

text \<open>\<^verbatim>\<open>updateCommunicatedWith\<close>: the body of its loop for row \<open>i\<close>, and the loop.\<close>

definition flowCounterCell :: "32 word \<Rightarrow> ddosDetectorValue Cell \<Rightarrow> ddosDetectorValue Cell" where
  "flowCounterCell srcIPidx cell = cell\<lparr>value := updateFlowCounter (value cell) srcIPidx\<rparr>"

definition sentBytesCell :: "64 word \<Rightarrow> ddosDetectorValue Cell \<Rightarrow> ddosDetectorValue Cell" where
  "sentBytesCell bytes' cell = cell\<lparr>value := updateSentBytes (value cell) bytes'\<rparr>"

definition updateCommunicatedWith_row ::
  "detectorConfig \<Rightarrow> BCSketchTypeSrcIPs \<Rightarrow> 32 word \<Rightarrow> 32 word \<Rightarrow> 64 word \<Rightarrow> bool \<Rightarrow> nat
     \<Rightarrow> BCSketchTypeDstIPs \<Rightarrow> BCSketchTypeDstIPs" where
  "updateCommunicatedWith_row cfg srcIPs' srcIP dstIP' bytes' isDst i d =
     (if isDst then
        let srcIPidx = getCol (hashSrc cfg) srcIPs' srcIP i;
            dstIPidx = getCol (hashDst cfg) d (dstIP' AND 0x00FFFFFF) i
        in modify_cell d i dstIPidx (flowCounterCell (word_of_nat srcIPidx))
      else
        let dstIPidx = getCol (hashDst cfg) d (srcIP AND 0x00FFFFFF) i
        in modify_cell d i dstIPidx (sentBytesCell bytes'))"

definition updateCommunicatedWith ::
  "detectorConfig \<Rightarrow> ddosDetector \<Rightarrow> 32 word \<Rightarrow> 32 word \<Rightarrow> 64 word \<Rightarrow> bool \<Rightarrow> ddosDetector" where
  "updateCommunicatedWith cfg st srcIP dstIP' bytes' isDst =
     st\<lparr>dstIPs := fold (updateCommunicatedWith_row cfg (srcIPs st) srcIP dstIP' bytes' isDst)
                       [0..<outerSizeDstIPs cfg] (dstIPs st)\<rparr>"

definition processCurrentFlow :: "detectorConfig \<Rightarrow> ddosDetector \<Rightarrow> netflowRecord \<Rightarrow> ddosDetector" where
  "processCurrentFlow cfg st record =
     (if isProtected cfg (dstAddr record) then
        let st1 = st\<lparr>dstIPs := CountMinSketch_update ddosDetectorValue_update (hashDst cfg)
                                  (dstIPs st) (dstAddr record AND 0x00FFFFFF) record\<rparr>;
            st2 = updateCommunicatedWith cfg st1 (srcAddr record) (dstAddr record) (bytes record) True
        in st2\<lparr>srcIPs := CountMinSketch_update binCountSketchValue_update (hashSrc cfg)
                             (srcIPs st2) (srcAddr record) 1\<rparr>
      else if isProtected cfg (srcAddr record) then
        let st2 = updateCommunicatedWith cfg st (srcAddr record) (dstAddr record) (bytes record) False
        in st2\<lparr>srcIPs := CountMinSketch_update binCountSketchValue_update (hashSrc cfg)
                             (srcIPs st2) (srcAddr record) 1\<rparr>
      else st)"

subsection \<open>Metrics\<close>

text \<open>
  \<^verbatim>\<open>calculateNormalizedEntropy\<close>, \<^verbatim>\<open>computeMetrics\<close> and \<^verbatim>\<open>updateMetrics\<close>. Floating-point
  values are real numbers; \<^verbatim>\<open>log2\<close> of a zero frequency (minus infinity in the source)
  and a zero total are not modelled. \<^verbatim>\<open>std::accumulate\<close> starts from the \<^verbatim>\<open>int\<close> 0, so
  the counts are summed in 32 bits with wrap-around, and the \<^verbatim>\<open>int\<close> sum is
  sign-extended to the 64-bit \<^verbatim>\<open>size_t totalCount\<close>.
\<close>

definition calculateNormalizedEntropy :: "32 word list \<Rightarrow> real" where
  "calculateNormalizedEntropy counts =
     (if length counts < 2 then 0.0
      else
        let accumulated = fold (\<lambda>count' init. init + count') counts (0 :: 32 word);
            totalCount' = unat (scast accumulated :: 64 word);
            entropy = fold (\<lambda>count' entropy.
                              let frequency = real (unat count') / real totalCount'
                              in entropy - frequency * log 2 frequency)
                           counts 0.0
        in entropy / log 2 (real (length counts)))"

definition computeMetrics ::
  "(32 word \<times> 32 word) list \<Rightarrow> ddosDetectorValue \<Rightarrow> real \<times> real \<times> real" where
  "computeMetrics srcIPsCommWithDst resultCell =
     (let counts = map snd srcIPsCommWithDst;
          entropySrcIPs = calculateNormalizedEntropy counts;
          counts' = map snd (ipSubnets resultCell);
          entropyDstIPs8bits = calculateNormalizedEntropy counts';
          entropy = (entropySrcIPs + 1 / 10 ^ 6) / (entropyDstIPs8bits + 1 / 10 ^ 6);
          receivedToSentBytes =
            (1 + real (unat (byteCount resultCell))) / (real (unat (sentBytes resultCell)) + 1);
          receivedToSentFlows =
            (1 + real (unat (flowCount resultCell))) / (real (unat (sentFlows resultCell)) + 1)
      in (entropy, receivedToSentBytes, receivedToSentFlows))"

definition updateMetrics ::
  "ddosDetector \<Rightarrow> (32 word \<times> 32 word) list \<Rightarrow> ddosDetectorValue \<Rightarrow> bool \<Rightarrow> nat \<Rightarrow> ddosDetector" where
  "updateMetrics st srcIPsCommWithDst resultCell learning column =
     (let (entropy, receivedSentBytes, receivedSentFlows) =
            computeMetrics srcIPsCommWithDst resultCell;
          st1 = st\<lparr>cusumBytes := (cusumBytes st)
                  [column := process (cusumBytes st ! column)
                               (real (unat (byteCount resultCell))) learning]\<rparr>;
          st2 = st1\<lparr>cusumPackets := (cusumPackets st1)
                  [column := process (cusumPackets st1 ! column)
                               (real (unat (packetCount resultCell))) learning]\<rparr>;
          st3 = st2\<lparr>cusumEntropy := (cusumEntropy st2)
                  [column := process (cusumEntropy st2 ! column) entropy learning]\<rparr>;
          st4 = st3\<lparr>cusumBytesReceivedToSent := (cusumBytesReceivedToSent st3)
                  [column := process (cusumBytesReceivedToSent st3 ! column)
                               receivedSentBytes learning]\<rparr>
      in st4\<lparr>cusumFlowsReceivedToSent := (cusumFlowsReceivedToSent st4)
                  [column := process (cusumFlowsReceivedToSent st4 ! column)
                               receivedSentFlows learning]\<rparr>)"

subsection \<open>False-positive feedback\<close>

text \<open>
  \<^verbatim>\<open>checkFalsePositives\<close>. The index \<^verbatim>\<open>cusumID\<close> comes from outside; an index beyond the
  end of a vector is undefined behaviour in the source and an error here. With a
  multiplier 0 (\<^verbatim>\<open>getMultiplier\<close> of a destination outside the protected prefixes) the
  five quotients are infinite or NaN in the source; the real numbers have no such
  values, and the model returns the error \<open>NonFiniteDouble\<close> instead of a state.
\<close>

definition setThresholdHighAt :: "AdaptiveCUSUM list \<Rightarrow> nat \<Rightarrow> real \<Rightarrow> error + AdaptiveCUSUM list" where
  "setThresholdHighAt cusums j threshold =
     (if j < length cusums then Inr (cusums[j := setThresholdHigh (cusums ! j) threshold])
      else Inl IndexOutOfBounds)"

definition checkFalsePositives :: "detectorConfig \<Rightarrow> ddosDetector \<Rightarrow> error + ddosDetector" where
  "checkFalsePositives cfg st =
     (case dosFalsePositivesQueue st of
        [] \<Rightarrow> Inr st
      | falsePositive # rest \<Rightarrow>
          let st0 = st\<lparr>dosFalsePositivesQueue := rest\<rparr>;
              multiplier = getMultiplier cfg (dstIP falsePositive);
              j = unat (cusumID falsePositive)
          in if multiplier = 0 then Inl NonFiniteDouble else
             case setThresholdHighAt (cusumEntropy st0) j
                    (measuredEntropy falsePositive / multiplier) of
               Inl e \<Rightarrow> Inl e
             | Inr ce \<Rightarrow>
           (case setThresholdHighAt (cusumBytes st0) j
                    (measuredBytes falsePositive / multiplier) of
               Inl e \<Rightarrow> Inl e
             | Inr cb \<Rightarrow>
           (case setThresholdHighAt (cusumPackets st0) j
                    (measuredPackets falsePositive / multiplier) of
               Inl e \<Rightarrow> Inl e
             | Inr cp \<Rightarrow>
           (case setThresholdHighAt (cusumBytesReceivedToSent st0) j
                    (measuredBytesReceivedToSent falsePositive / multiplier) of
               Inl e \<Rightarrow> Inl e
             | Inr cbr \<Rightarrow>
           (case setThresholdHighAt (cusumFlowsReceivedToSent st0) j
                    (measuredFlowsReceivedToSent falsePositive / multiplier) of
               Inl e \<Rightarrow> Inl e
             | Inr cfr \<Rightarrow>
                 Inr (st0\<lparr>cusumEntropy := ce, cusumBytes := cb, cusumPackets := cp,
                          cusumBytesReceivedToSent := cbr,
                          cusumFlowsReceivedToSent := cfr\<rparr>))))))"

subsection \<open>Reversal of the source addresses\<close>

text \<open>
  The \<^verbatim>\<open>while\<close> loop of \<^verbatim>\<open>reverseSrcIPs\<close> for one entry \<open>srcIPidx\<close> of
  \<^verbatim>\<open>communicatedWith\<close>, on row \<open>row\<close>. The sketch is never written.
\<close>

function reverseSrcIPs_while ::
  "hashes \<Rightarrow> BCSketchTypeSrcIPs \<Rightarrow> nat \<Rightarrow> 32 word \<times> 32 word \<Rightarrow> 32 word
     \<Rightarrow> (32 word \<times> 32 word) list \<Rightarrow> (32 word \<times> 32 word) list" where
  "reverseSrcIPs_while h srcIPsCopy row srcIPidx prevCnt srcIPsCommWithDstVec =
     (if prevCnt \<noteq> count (srcIPsCopy ! row ! unat (fst srcIPidx)) then
        let prevCnt' = count (srcIPsCopy ! row ! unat (fst srcIPidx));
            recoveredSrcIP =
              binCountSketchValue_reverseKey (value (srcIPsCopy ! row ! unat (fst srcIPidx)));
            recoveredIPCell = CountMinSketch_estimate h srcIPsCopy recoveredSrcIP;
            cell = srcIPsCopy ! fst recoveredIPCell ! snd recoveredIPCell
        in if count cell = 0 then srcIPsCommWithDstVec
           else reverseSrcIPs_while h srcIPsCopy row srcIPidx prevCnt'
                  (srcIPsCommWithDstVec @ [(recoveredSrcIP, snd srcIPidx)])
      else srcIPsCommWithDstVec)"
  by pat_completeness auto
termination
  by (relation "measure (\<lambda>(h, srcIPsCopy, row, srcIPidx, prevCnt, vec).
                  if prevCnt \<noteq> count (srcIPsCopy ! row ! unat (fst srcIPidx)) then 1 else 0)")
     auto

declare reverseSrcIPs_while.simps [simp del]

text \<open>The same equation with the local variables substituted, for evaluation.\<close>

lemma reverseSrcIPs_while_code [code]:
  "reverseSrcIPs_while h srcIPsCopy row srcIPidx prevCnt srcIPsCommWithDstVec =
     (if prevCnt \<noteq> count (srcIPsCopy ! row ! unat (fst srcIPidx)) then
        (if count (srcIPsCopy
                    ! fst (CountMinSketch_estimate h srcIPsCopy
                             (binCountSketchValue_reverseKey
                                (value (srcIPsCopy ! row ! unat (fst srcIPidx)))))
                    ! snd (CountMinSketch_estimate h srcIPsCopy
                             (binCountSketchValue_reverseKey
                                (value (srcIPsCopy ! row ! unat (fst srcIPidx)))))) = 0
         then srcIPsCommWithDstVec
         else reverseSrcIPs_while h srcIPsCopy row srcIPidx
                (count (srcIPsCopy ! row ! unat (fst srcIPidx)))
                (srcIPsCommWithDstVec
                 @ [(binCountSketchValue_reverseKey
                       (value (srcIPsCopy ! row ! unat (fst srcIPidx))), snd srcIPidx)]))
      else srcIPsCommWithDstVec)"
  by (subst reverseSrcIPs_while.simps) (simp add: Let_def)

text \<open>
  \<^verbatim>\<open>reverseSrcIPs\<close>: the loop over the entries of \<^verbatim>\<open>communicatedWith\<close>. \<^verbatim>\<open>rows.at\<close>
  throws for a missing key; a cell index outside the sketch is undefined behaviour.
\<close>

fun reverseSrcIPs ::
  "hashes \<Rightarrow> (32 word \<times> 32 word) list \<Rightarrow> (32 word \<times> 32 word) list
     \<Rightarrow> (32 word \<times> 32 word) list \<Rightarrow> BCSketchTypeSrcIPs
     \<Rightarrow> error + (32 word \<times> 32 word) list" where
  "reverseSrcIPs h [] srcIPsCommWithDstVec rows srcIPsCopy = Inr srcIPsCommWithDstVec"
| "reverseSrcIPs h (srcIPidx # communicatedWith') srcIPsCommWithDstVec rows srcIPsCopy =
     (case map_of rows (fst srcIPidx) of
        None \<Rightarrow> Inl OutOfRange
      | Some row \<Rightarrow>
          if unat row < length srcIPsCopy
             \<and> unat (fst srcIPidx) < length (srcIPsCopy ! unat row)
          then reverseSrcIPs h communicatedWith'
                 (reverseSrcIPs_while h srcIPsCopy (unat row) srcIPidx 0 srcIPsCommWithDstVec)
                 rows srcIPsCopy
          else Inl IndexOutOfBounds)"

subsection \<open>Reversal of a destination column\<close>

lemma modify_cell_length: "length (modify_cell sk i j f) = length sk"
  by (simp add: modify_cell_def)

lemma modify_cell_row_other: "i' \<noteq> i \<Longrightarrow> modify_cell sk i j f ! i' = sk ! i'"
  by (simp add: modify_cell_def)

lemma dec_row_other: "i \<noteq> 0 \<Longrightarrow> dec_row sub h key cell i s ! 0 = s ! 0"
  by (simp add: dec_row_def modify_cell_row_other)

lemma dec_fold_row0:
  "0 \<notin> set is \<Longrightarrow> fold (dec_row sub h key cell) is sk ! 0 = sk ! 0"
  by (induction "is" arbitrary: sk) (auto simp: dec_row_other)

lemma sat_sub_le: "(if (a :: 32 word) < b then 0 else a - b) \<le> a"
  by (auto simp: word_sub_le not_less)

lemma modify_cell_count_le:
  assumes "\<And>c. count (f c) \<le> count c"
  shows "count (modify_cell sk i j f ! i' ! j') \<le> count (sk ! i' ! j')"
proof -
  consider "length sk \<le> i" | "i < length sk" "i' \<noteq> i"
    | "i < length sk" "i' = i" "length (sk ! i) \<le> j"
    | "i < length sk" "i' = i" "j < length (sk ! i)" "j' \<noteq> j"
    | "i < length sk" "i' = i" "j < length (sk ! i)" "j' = j"
    by fastforce
  then show ?thesis
  proof cases
    case 1
    then show ?thesis by (simp add: modify_cell_def list_update_beyond)
  next
    case 2
    then show ?thesis by (simp add: modify_cell_def)
  next
    case 3
    then show ?thesis by (simp add: modify_cell_def list_update_beyond)
  next
    case 4
    then show ?thesis by (simp add: modify_cell_def)
  next
    case 5
    then show ?thesis using assms by (simp add: modify_cell_def)
  qed
qed

lemma dec_count_le:
  "count (CountMinSketch_dec sub h sk key cell ! 0 ! column) \<le> count (sk ! 0 ! column)"
proof (cases "length sk")
  case 0
  then show ?thesis by (simp add: CountMinSketch_dec_def)
next
  case (Suc n)
  have upt: "[0..<length sk] = 0 # [1..<length sk]"
    using Suc by (simp add: upt_rec)
  have "CountMinSketch_dec sub h sk key cell ! 0 = dec_row sub h key cell 0 sk ! 0"
    unfolding CountMinSketch_dec_def upt
    using dec_fold_row0 [of "[1..<length sk]" sub h key cell "dec_row sub h key cell 0 sk"]
    by simp
  moreover have "count (dec_row sub h key cell 0 sk ! 0 ! column) \<le> count (sk ! 0 ! column)"
    unfolding dec_row_def
    by (rule modify_cell_count_le) (simp add: dec_cell_def sat_sub_le)
  ultimately show ?thesis by simp
qed

text \<open>
  The \<^verbatim>\<open>while\<close> loop of \<^verbatim>\<open>reverseAllKeys\<close>; its variables are the arguments
  \<open>prevCnt\<close>, \<open>maxIPBytes\<close>, \<open>maxIP\<close>, \<open>resultCell\<close>, the snapshot \<open>dstIPs'\<close> and \<open>rows\<close>.
  The loop ends because a pass that does not leave through \<^verbatim>\<open>break\<close> cannot increase
  the count of the cell it started from, and the next test ends the loop unless that
  count has changed.
\<close>

function reverseAllKeys_while ::
  "detectorConfig \<Rightarrow> nat \<Rightarrow> 32 word \<Rightarrow> 64 word \<Rightarrow> 32 word \<Rightarrow> ddosDetectorValue
     \<Rightarrow> BCSketchTypeDstIPs \<Rightarrow> (32 word \<times> 32 word) list
     \<Rightarrow> 32 word \<times> ddosDetectorValue \<times> BCSketchTypeDstIPs \<times> (32 word \<times> 32 word) list" where
  "reverseAllKeys_while cfg column prevCnt maxIPBytes maxIP resultCell dstIPs' rows =
     (if prevCnt \<noteq> count (dstIPs' ! 0 ! column) then
        let prevCnt' = count (dstIPs' ! 0 ! column);
            dstAddr' = ddosDetectorValue_reverseKey (value (dstIPs' ! 0 ! column));
            onlyPrefix = dstAddr' AND 0x00FFFFFF;
            indices = CountMinSketch_estimate (hashDst cfg) dstIPs' onlyPrefix;
            cell = dstIPs' ! fst indices ! snd indices
        in if count cell = 0 \<or> \<not> isProtected cfg onlyPrefix
           then (maxIP, resultCell, dstIPs', rows)
           else
             reverseAllKeys_while cfg column prevCnt'
               (if maxIPBytes < byteCount (value cell) then byteCount (value cell) else maxIPBytes)
               (if maxIPBytes < byteCount (value cell) then onlyPrefix else maxIP)
               (ddosDetectorValue_add resultCell (value cell))
               (CountMinSketch_dec ddosDetectorValue_sub (hashDst cfg) dstIPs' onlyPrefix cell)
               (fold (\<lambda>srcIP r. AList.update (fst srcIP) (word_of_nat (fst indices)) r)
                     (communicatedWith (value cell)) rows)
      else (maxIP, resultCell, dstIPs', rows))"
  by pat_completeness auto
termination
proof (relation "measure (\<lambda>(cfg, column, prevCnt, maxIPBytes, maxIP, resultCell, dstIPs', rows).
                  2 * unat (count (dstIPs' ! 0 ! column))
                  + (if prevCnt \<noteq> count (dstIPs' ! 0 ! column) then 1 else 0))", goal_cases)
  case 1
  show ?case by simp
next
  case (2 cfg column prevCnt maxIPBytes maxIP resultCell dstIPs' rows x xa xb xc xd)
  define c' where
    "c' = count (CountMinSketch_dec ddosDetectorValue_sub (hashDst cfg) dstIPs' xb xd ! 0 ! column)"
  have le: "unat c' \<le> unat (count (dstIPs' ! 0 ! column))"
    unfolding c'_def
    using dec_count_le [of ddosDetectorValue_sub "hashDst cfg" dstIPs' xb xd column]
    by (simp add: word_le_nat_alt)
  have "2 * unat c' + (if x \<noteq> c' then 1 else 0)
        < 2 * unat (count (dstIPs' ! 0 ! column)) + 1"
  proof (cases "x = c'")
    case True
    then show ?thesis using le by simp
  next
    case False
    then have "unat c' \<noteq> unat (count (dstIPs' ! 0 ! column))"
      using 2(2) by (simp add: word_unat_eq_iff)
    then show ?thesis using le by simp
  qed
  then show ?case
    using 2(1) by (simp add: c'_def)
qed

declare reverseAllKeys_while.simps [simp del]





text \<open>
  \<^verbatim>\<open>reverseAllKeys\<close>. The reference parameters \<^verbatim>\<open>maxIP\<close>, \<^verbatim>\<open>resultCell\<close>, the snapshot
  \<^verbatim>\<open>dstIPs\<close> and the vector \<^verbatim>\<open>srcIPsCommWithDst\<close> are returned. (The set
  \<^verbatim>\<open>reversedPrefixes\<close> is written in debug builds only.)
\<close>

definition reverseAllKeys ::
  "detectorConfig \<Rightarrow> 32 word \<Rightarrow> ddosDetectorValue \<Rightarrow> BCSketchTypeDstIPs \<Rightarrow> BCSketchTypeSrcIPs
     \<Rightarrow> nat \<Rightarrow> (32 word \<times> 32 word) list
     \<Rightarrow> error + (32 word \<times> ddosDetectorValue \<times> BCSketchTypeDstIPs \<times> (32 word \<times> 32 word) list)" where
  "reverseAllKeys cfg maxIP resultCell dstIPs' srcIPs' column srcIPsCommWithDst =
     (case reverseAllKeys_while cfg column 0 0 maxIP resultCell dstIPs' [] of
        (maxIP1, resultCell1, dstIPs1, rows) \<Rightarrow>
          if maxIP1 = 0 then Inr (maxIP1, resultCell1, dstIPs1, srcIPsCommWithDst)
          else
            (case reverseSrcIPs (hashSrc cfg) (communicatedWith resultCell1) srcIPsCommWithDst
                    rows srcIPs' of
               Inl e \<Rightarrow> Inl e
             | Inr vec \<Rightarrow> Inr (maxIP1, resultCell1, dstIPs1, vec)))"

subsection \<open>Alerts\<close>

text \<open>
  \<^verbatim>\<open>getTopNSrcIPs\<close>: the vector is sorted by descending flow count (\<^verbatim>\<open>std::sort\<close> leaves
  the order of equal counts open; the stable sort is one such order), then the loop
  collects the addresses that are not whitelisted until the set has \<^verbatim>\<open>n_\<close> elements.
\<close>

fun getTopNSrcIPs_loop ::
  "detectorConfig \<Rightarrow> (32 word \<times> 32 word) list \<Rightarrow> 32 word list \<Rightarrow> 32 word list" where
  "getTopNSrcIPs_loop cfg [] topNSrcIPs = topNSrcIPs"
| "getTopNSrcIPs_loop cfg (srcIP # rest) topNSrcIPs =
     (if isWhitelisted cfg (fst srcIP) then getTopNSrcIPs_loop cfg rest topNSrcIPs
      else
        let topNSrcIPs' = List.insert (fst srcIP) topNSrcIPs
        in if int (length topNSrcIPs') = n_top cfg then topNSrcIPs'
           else getTopNSrcIPs_loop cfg rest topNSrcIPs')"

definition getTopNSrcIPs ::
  "detectorConfig \<Rightarrow> (32 word \<times> 32 word) list \<Rightarrow> 32 word list
     \<Rightarrow> (32 word \<times> 32 word) list \<times> 32 word list" where
  "getTopNSrcIPs cfg srcIPsCommWithDst topNSrcIPs =
     (let sorted = sort_key (\<lambda>p. - int (unat (snd p))) srcIPsCommWithDst
      in (sorted, getTopNSrcIPs_loop cfg sorted topNSrcIPs))"

definition detectAnomaly ::
  "detectorConfig \<Rightarrow> ddosDetector \<Rightarrow> 32 word \<Rightarrow> nat \<Rightarrow> (32 word \<times> 32 word) list
     \<Rightarrow> bool \<times> ddosDetector" where
  "detectAnomaly cfg st maxIP column srcIPsCommWithDst =
     (let multiplier = getMultiplier cfg maxIP in
      if isPositiveAnomaly (cusumBytes st ! column) multiplier
         \<and> isPositiveAnomaly (cusumPackets st ! column) multiplier
         \<and> isPositiveAnomaly (cusumBytesReceivedToSent st ! column) multiplier
         \<and> isPositiveAnomaly (cusumFlowsReceivedToSent st ! column) multiplier
         \<and> isPositiveAnomaly (cusumEntropy st ! column) multiplier
      then
        let srcIPsRes = snd (getTopNSrcIPs cfg srcIPsCommWithDst [])
        in if srcIPsRes \<noteq> [] then
             let dosAlert =
                   \<lparr>thresholdBytes = thresholdHigh (cusumBytes st ! column) * multiplier,
                    thresholdPackets = thresholdHigh (cusumPackets st ! column) * multiplier,
                    thresholdBytesReceivedToSent =
                      thresholdHigh (cusumBytesReceivedToSent st ! column) * multiplier,
                    thresholdFlowsReceivedToSent =
                      thresholdHigh (cusumFlowsReceivedToSent st ! column) * multiplier,
                    thresholdEntropy = thresholdHigh (cusumEntropy st ! column) * multiplier,
                    measuredBytes = SH (cusumBytes st ! column),
                    measuredPackets = SH (cusumPackets st ! column),
                    measuredBytesReceivedToSent = SH (cusumBytesReceivedToSent st ! column),
                    measuredFlowsReceivedToSent = SH (cusumFlowsReceivedToSent st ! column),
                    measuredEntropy = SH (cusumEntropy st ! column),
                    dstIP = maxIP,
                    cusumID = word_of_nat column,
                    alertSrcIPs = srcIPsRes\<rparr>
             in (True, st\<lparr>dosAlertsQueue := dosAlertsQueue st @ [dosAlert]\<rparr>)
           else (False, st)
      else (False, st))"

subsection \<open>Threshold installation\<close>

definition getQuantileThresholdLow :: "detectorConfig \<Rightarrow> AdaptiveCUSUM list \<Rightarrow> real" where
  "getQuantileThresholdLow cfg allCusums =
     (let tresholdsHigh =
            fold (\<lambda>cusum t. if maxSH cusum > 0 then t @ [maxSH cusum] else t) allCusums []
      in if tresholdsHigh = [] then 0
         else getQuantileSortedVec (sort tresholdsHigh) (quantile cfg))"

definition getQuantileThresholdHigh :: "detectorConfig \<Rightarrow> AdaptiveCUSUM list \<Rightarrow> real" where
  "getQuantileThresholdHigh cfg allCusums =
     (let tresholdsLow =
            fold (\<lambda>cusum t. if maxSL cusum > 0 then t @ [maxSL cusum] else t) allCusums []
      in if tresholdsLow = [] then 0
         else getQuantileSortedVec (sort tresholdsLow) (quantile cfg))"

definition setCusumThresholdHigh :: "AdaptiveCUSUM \<Rightarrow> real \<Rightarrow> AdaptiveCUSUM" where
  "setCusumThresholdHigh cusum quantileTHreshold =
     (if maxSH cusum > 0 then setThresholdHigh cusum (maxSH cusum)
      else setThresholdHigh cusum quantileTHreshold)"

definition setCusumThresholdLow :: "AdaptiveCUSUM \<Rightarrow> real \<Rightarrow> AdaptiveCUSUM" where
  "setCusumThresholdLow cusum quantileTHreshold =
     (if maxSL cusum > 0 then setThresholdLow cusum (maxSL cusum)
      else setThresholdLow cusum quantileTHreshold)"

text \<open>
  \<^verbatim>\<open>setCusumTresholds\<close>. The file \<^verbatim>\<open>thresholds.csv\<close> is the parameter \<open>thresholdsCsv\<close>:
  \<open>thresholdsCsv j\<close> is the six numbers that the source parses for column \<open>j\<close>, or
  \<open>None\<close> when \<^verbatim>\<open>stof\<close> throws there. The bodies of the two loops over the columns come
  first.
\<close>

definition setCusumTresholds_fromFile ::
  "(nat \<Rightarrow> (real \<times> real \<times> real \<times> real \<times> real \<times> real) option) \<Rightarrow> nat
     \<Rightarrow> error + ddosDetector \<Rightarrow> error + ddosDetector" where
  "setCusumTresholds_fromFile thresholdsCsv j r =
     (case r of
        Inl e \<Rightarrow> Inl e
      | Inr s \<Rightarrow>
          (case thresholdsCsv j of
             None \<Rightarrow> Inl InvalidArgument
           | Some (b, p, eh, el, rb, rf) \<Rightarrow>
               let s1 = s\<lparr>cusumBytes := (cusumBytes s)
                           [j := setThresholdHigh (cusumBytes s ! j) b]\<rparr>;
                   s2 = s1\<lparr>cusumPackets := (cusumPackets s1)
                           [j := setThresholdHigh (cusumPackets s1 ! j) p]\<rparr>;
                   s3 = s2\<lparr>cusumEntropy := (cusumEntropy s2)
                           [j := setThresholdHigh (cusumEntropy s2 ! j) eh]\<rparr>;
                   s4 = s3\<lparr>cusumEntropy := (cusumEntropy s3)
                           [j := setThresholdLow (cusumEntropy s3 ! j) el]\<rparr>;
                   s5 = s4\<lparr>cusumBytesReceivedToSent := (cusumBytesReceivedToSent s4)
                           [j := setThresholdHigh (cusumBytesReceivedToSent s4 ! j) rb]\<rparr>
               in Inr (s5\<lparr>cusumFlowsReceivedToSent := (cusumFlowsReceivedToSent s5)
                           [j := setThresholdHigh (cusumFlowsReceivedToSent s5 ! j) rf]\<rparr>)))"

definition setCusumTresholds_learned ::
  "real \<Rightarrow> real \<Rightarrow> real \<Rightarrow> real \<Rightarrow> real \<Rightarrow> real \<Rightarrow> nat \<Rightarrow> ddosDetector \<Rightarrow> ddosDetector" where
  "setCusumTresholds_learned quantileTHBytes quantileTHEntropy quantileTHBytesReceivedToSent
       quantileTHPackets quantileTLEntropy quantileTHFlowsSentToReceived j s =
     (let s1 = s\<lparr>cusumBytes := (cusumBytes s)
                  [j := setCusumThresholdHigh (cusumBytes s ! j) quantileTHBytes]\<rparr>;
          s2 = s1\<lparr>cusumEntropy := (cusumEntropy s1)
                  [j := setCusumThresholdHigh (cusumEntropy s1 ! j) quantileTHEntropy]\<rparr>;
          s3 = s2\<lparr>cusumBytesReceivedToSent := (cusumBytesReceivedToSent s2)
                  [j := setCusumThresholdHigh (cusumBytesReceivedToSent s2 ! j)
                          quantileTHBytesReceivedToSent]\<rparr>;
          s4 = s3\<lparr>cusumPackets := (cusumPackets s3)
                  [j := setCusumThresholdHigh (cusumPackets s3 ! j) quantileTHPackets]\<rparr>;
          s5 = s4\<lparr>cusumEntropy := (cusumEntropy s4)
                  [j := setCusumThresholdLow (cusumEntropy s4 ! j) quantileTLEntropy]\<rparr>
      in s5\<lparr>cusumFlowsReceivedToSent := (cusumFlowsReceivedToSent s5)
                  [j := setCusumThresholdHigh (cusumFlowsReceivedToSent s5 ! j)
                          quantileTHFlowsSentToReceived]\<rparr>)"

definition setCusumTresholds ::
  "detectorConfig \<Rightarrow> (nat \<Rightarrow> (real \<times> real \<times> real \<times> real \<times> real \<times> real) option) \<Rightarrow> ddosDetector
     \<Rightarrow> error + ddosDetector" where
  "setCusumTresholds cfg thresholdsCsv st =
     (if learningSecs cfg = 0 then
        fold (setCusumTresholds_fromFile thresholdsCsv) [0..<innerSizeDstIPs cfg] (Inr st)
      else
        let quantileTHBytes = getQuantileThresholdHigh cfg (cusumBytes st);
            quantileTHEntropy = getQuantileThresholdHigh cfg (cusumEntropy st);
            quantileTHBytesReceivedToSent =
              getQuantileThresholdHigh cfg (cusumBytesReceivedToSent st);
            quantileTHPackets = getQuantileThresholdHigh cfg (cusumPackets st);
            quantileTLEntropy = getQuantileThresholdLow cfg (cusumEntropy st);
            quantileTHFlowsSentToReceived =
              getQuantileThresholdHigh cfg (cusumFlowsReceivedToSent st)
        in Inr (fold (setCusumTresholds_learned quantileTHBytes quantileTHEntropy
                        quantileTHBytesReceivedToSent quantileTHPackets quantileTLEntropy
                        quantileTHFlowsSentToReceived)
                     [0..<innerSizeDstIPs cfg] st))"

subsection \<open>The detection loop\<close>

text \<open>
  The body of the loop over the columns in \<^verbatim>\<open>detectionProcess\<close>, for column \<open>j\<close> of the
  snapshot \<open>(dstSnap, srcSnap)\<close> read from the pipe. \<open>alertColumn\<close> is its last statement,
  the guarded call of \<^verbatim>\<open>detectAnomaly\<close>.
\<close>

definition alertColumn ::
  "detectorConfig \<Rightarrow> int \<Rightarrow> bool \<Rightarrow> ddosDetector \<Rightarrow> 32 word \<Rightarrow> nat \<Rightarrow> (32 word \<times> 32 word) list
     \<Rightarrow> ddosDetector" where
  "alertColumn cfg currTime thresholdSet st maxIP j reversedSrcIPs =
     (if thresholdSet
         \<and> lastAlert (cusumBytes st ! j) + timeBetweenAlertsSecs cfg * ticksPerSecond cfg < currTime
      then
        (case detectAnomaly cfg st maxIP j reversedSrcIPs of
           (alert, st1) \<Rightarrow>
             if alert
             then st1\<lparr>cusumBytes := (cusumBytes st1)[j := setLastAlert (cusumBytes st1 ! j) currTime]\<rparr>
             else st1)
      else st)"

definition processColumn ::
  "detectorConfig \<Rightarrow> int \<Rightarrow> bool \<Rightarrow> bool \<Rightarrow> nat
     \<Rightarrow> ddosDetector \<times> BCSketchTypeDstIPs \<times> BCSketchTypeSrcIPs
     \<Rightarrow> error + (ddosDetector \<times> BCSketchTypeDstIPs \<times> BCSketchTypeSrcIPs)" where
  "processColumn cfg currTime thresholdSet learning j state =
     (case state of (st, dstSnap, srcSnap) \<Rightarrow>
        if count (dstSnap ! 0 ! j) = 0 then Inr (st, dstSnap, srcSnap)
        else
          (case reverseAllKeys cfg 0 ddosDetectorValue_new dstSnap srcSnap j [] of
             Inl e \<Rightarrow> Inl e
           | Inr (maxIP, resultCell, dstSnap1, reversedSrcIPs) \<Rightarrow>
               if maxIP = 0 then Inr (st, dstSnap1, srcSnap)
               else
                 let st1 = updateMetrics st reversedSrcIPs resultCell learning j
                 in Inr (alertColumn cfg currTime thresholdSet st1 maxIP j reversedSrcIPs,
                         dstSnap1, srcSnap)))"

text \<open>
  One pass of the \<^verbatim>\<open>while\<close> loop of \<^verbatim>\<open>detectionProcess\<close> after the snapshot has been read
  and \<^verbatim>\<open>stop\<close> found false: \<open>currTime\<close> is the time read from the clock, \<open>learn_until\<close>
  the end of learning, \<open>thresholdSet\<close> the loop's flag.
\<close>

definition detectionWindow ::
  "detectorConfig \<Rightarrow> (nat \<Rightarrow> (real \<times> real \<times> real \<times> real \<times> real \<times> real) option) \<Rightarrow> int \<Rightarrow> int
     \<Rightarrow> bool \<times> ddosDetector \<Rightarrow> BCSketchTypeDstIPs \<times> BCSketchTypeSrcIPs
     \<Rightarrow> error + (bool \<times> ddosDetector)" where
  "detectionWindow cfg thresholdsCsv currTime learn_until loopState val =
     (case loopState of (thresholdSet, st) \<Rightarrow>
        let learning = (currTime < learn_until) in
        (case (if \<not> thresholdSet \<and> \<not> learning
               then (case setCusumTresholds cfg thresholdsCsv st of
                       Inl e \<Rightarrow> Inl e | Inr s \<Rightarrow> Inr (True, s))
               else Inr (thresholdSet, st)) of
           Inl e \<Rightarrow> Inl e
         | Inr (thresholdSet1, st1) \<Rightarrow>
             (case (if thresholdSet1 then checkFalsePositives cfg st1 else Inr st1) of
                Inl e \<Rightarrow> Inl e
              | Inr st2 \<Rightarrow>
                  (case fold (\<lambda>j r. case r of Inl e \<Rightarrow> Inl e
                                     | Inr s \<Rightarrow> processColumn cfg currTime thresholdSet1 learning j s)
                             [0..<innerSizeDstIPs cfg] (Inr (st2, fst val, snd val)) of
                     Inl e \<Rightarrow> Inl e
                   | Inr (st3, _, _) \<Rightarrow> Inr (thresholdSet1, st3)))))"

section \<open>Properties of the adaptive CUSUM\<close>

lemma process_all_Nil: "process_all acu [] = acu"
  by (simp add: process_all_def)

lemma process_all_snoc:
  "process_all acu (calls @ [(x, l)]) = process (process_all acu calls) x l"
  by (simp add: process_all_def)

lemma process_all_append:
  "process_all acu (xs @ ys) = process_all (process_all acu xs) ys"
  by (simp add: process_all_def)

lemma process_not_first: "\<not> first (process acu x l)"
  by (simp add: process_def Let_def)

lemma process_all_not_first:
  "calls \<noteq> [] \<Longrightarrow> \<not> first (process_all acu calls)"
  by (cases calls rule: rev_cases)
     (auto simp: process_all_def process_not_first split: prod.splits)

lemma process_params:
  "c (process acu x l) = c acu \<and> alpha (process acu x l) = alpha acu
   \<and> span (process acu x l) = span acu"
  by (simp add: process_def Let_def)

lemma process_all_params:
  "c (process_all acu calls) = c acu \<and> alpha (process_all acu calls) = alpha acu
   \<and> span (process_all acu calls) = span acu"
  by (induction calls rule: rev_induct)
     (auto simp: process_all_Nil process_all_snoc process_params)

lemma process_first_call:
  "first acu \<Longrightarrow> process acu x l = acu\<lparr>m := x, v := 0, first := False\<rparr>"
  by (simp add: process_def)

lemma process_later_call:
  assumes "\<not> first s"
  shows "m (process s x l) = m s + alpha s * (x - m s)
       \<and> v (process s x l) = (1 - alpha s) * v s + alpha s * (x - m s)\<^sup>2
       \<and> SH (process s x l) =
            (if windowID s \<ge> span s \<or> \<not> l
             then max 0 (SH s + (x - m (process s x l)) - c s * sqrt (v (process s x l)))
             else SH s)
       \<and> SL (process s x l) =
            (if windowID s \<ge> span s \<or> \<not> l
             then max 0 (SL s - (x - m (process s x l)) - c s * sqrt (v (process s x l)))
             else SL s)
       \<and> maxSH (process s x l) = max (maxSH s) (SH (process s x l))
       \<and> maxSL (process s x l) = max (maxSL s) (SL (process s x l))"
  using assms by (auto simp add: process_def Let_def power2_eq_square max.commute)

text \<open>
  Claim C3. On an instance made by the constructor, the first call of \<^verbatim>\<open>process\<close> sets
  \<open>m = x\<close> and \<open>v = 0\<close> (and nothing else but the flag \<^verbatim>\<open>first\<close>). Every later call,
  that is, a call on a state \<open>s\<close> reached after at least one call, sets
  \<open>m\<close> to \<open>m_prev + \<alpha>\<cdot>(x - m_prev)\<close> and \<open>v\<close> to \<open>(1 - \<alpha>)\<cdot>v_prev + \<alpha>\<cdot>(x - m_prev)\<^sup>2\<close>; then,
  exactly when \<open>windowID \<ge> span\<close> or \<open>learning\<close> is false, \<open>SH\<close> becomes
  \<open>max(0, SH_prev + (x - m) - c\<cdot>\<surd>v)\<close> and \<open>SL\<close> becomes \<open>max(0, SL_prev - (x - m) - c\<cdot>\<surd>v)\<close>
  with the just-updated \<open>m\<close> and \<open>v\<close> (and otherwise both keep their values); \<open>maxSH\<close> and
  \<open>maxSL\<close> become the maxima of their previous values and the new \<open>SH\<close> and \<open>SL\<close>.
\<close>

theorem process_update_rule:
  "let s0 = AdaptiveCUSUM_new c0 a0 sp m0 v0;
       s = process_all s0 ((x0, l0) # calls);
       s' = process s x l
   in process s0 x0 l0 = s0\<lparr>m := x0, v := 0, first := False\<rparr>
    \<and> m s' = m s + a0 * (x - m s)
    \<and> v s' = (1 - a0) * v s + a0 * (x - m s)\<^sup>2
    \<and> SH s' = (if windowID s \<ge> sp \<or> \<not> l
                then max 0 (SH s + (x - m s') - c0 * sqrt (v s')) else SH s)
    \<and> SL s' = (if windowID s \<ge> sp \<or> \<not> l
                then max 0 (SL s - (x - m s') - c0 * sqrt (v s')) else SL s)
    \<and> maxSH s' = max (maxSH s) (SH s')
    \<and> maxSL s' = max (maxSL s) (SL s')"
proof -
  define s0 where "s0 = AdaptiveCUSUM_new c0 a0 sp m0 v0"
  define s where "s = process_all s0 ((x0, l0) # calls)"
  have par: "c s = c0" "alpha s = a0" "span s = sp"
    using process_all_params [of s0 "(x0, l0) # calls"]
    by (simp_all add: s_def s0_def AdaptiveCUSUM_new_def)
  have nf: "\<not> first s"
    unfolding s_def by (rule process_all_not_first) simp
  have fst: "process s0 x0 l0 = s0\<lparr>m := x0, v := 0, first := False\<rparr>"
    by (rule process_first_call) (simp add: s0_def AdaptiveCUSUM_new_def)
  have later: "m (process s x l) = m s + a0 * (x - m s)
       \<and> v (process s x l) = (1 - a0) * v s + a0 * (x - m s)\<^sup>2
       \<and> SH (process s x l) =
            (if windowID s \<ge> sp \<or> \<not> l
             then max 0 (SH s + (x - m (process s x l)) - c0 * sqrt (v (process s x l)))
             else SH s)
       \<and> SL (process s x l) =
            (if windowID s \<ge> sp \<or> \<not> l
             then max 0 (SL s - (x - m (process s x l)) - c0 * sqrt (v (process s x l)))
             else SL s)
       \<and> maxSH (process s x l) = max (maxSH s) (SH (process s x l))
       \<and> maxSL (process s x l) = max (maxSL s) (SL (process s x l))"
    using process_later_call [OF nf, of x l] unfolding par .
  show ?thesis
    unfolding Let_def s_def [symmetric] s0_def [symmetric]
    using fst later by (rule conjI)
qed

theorem process_update_rule_witness:
  "let s = process (AdaptiveCUSUM_new (1/2) (1/4) 0 7 9) 4 True;
       s' = process s 8 True
   in m s = 4 \<and> v s = 0 \<and> m s' = 5 \<and> v s' = 4 \<and> SH s' = 2 \<and> SL s' = 0
    \<and> maxSH s' = 2 \<and> maxSL s' = 0"
  using process_update_rule [of "1/2" "1/4" 0 7 9 4 True "[]" 8 True]
  by (simp (no_asm_simp) add: Let_def process_all_def process_def AdaptiveCUSUM_new_def)

definition cusum_inv :: "AdaptiveCUSUM \<Rightarrow> bool" where
  "cusum_inv s = (0 \<le> SH s \<and> 0 \<le> SL s \<and> SH s \<le> maxSH s \<and> SL s \<le> maxSL s)"

lemma cusum_inv_new: "cusum_inv (AdaptiveCUSUM_new c0 a0 sp m0 v0)"
  by (simp add: cusum_inv_def AdaptiveCUSUM_new_def)

lemma cusum_inv_process: "cusum_inv s \<Longrightarrow> cusum_inv (process s x l)"
  by (auto simp add: cusum_inv_def process_def Let_def)

lemma cusum_inv_process_all: "cusum_inv s \<Longrightarrow> cusum_inv (process_all s calls)"
  by (induction calls rule: rev_induct)
     (auto simp: process_all_Nil process_all_snoc cusum_inv_process)

lemma max_mono_process:
  "maxSH s \<le> maxSH (process s x l) \<and> maxSL s \<le> maxSL (process s x l)"
  by (auto simp add: process_def Let_def)

lemma max_mono_process_all:
  "maxSH s \<le> maxSH (process_all s calls) \<and> maxSL s \<le> maxSL (process_all s calls)"
proof (induction calls rule: rev_induct)
  case Nil
  show ?case by (simp add: process_all_Nil)
next
  case (snoc a calls)
  obtain x l where a: "a = (x, l)" by (cases a)
  from max_mono_process [of "process_all s calls" x l] snoc show ?case
    unfolding a process_all_snoc by linarith
qed

text \<open>
  Claim C8. For an instance made by the constructor and any sequence of \<^verbatim>\<open>process\<close>
  calls, split at any point into the calls made so far (\<open>pre\<close>) and the calls that follow
  (\<open>post\<close>): the state satisfies \<open>SH \<ge> 0\<close> and \<open>SL \<ge> 0\<close>; \<open>maxSH\<close> is at least the \<open>SH\<close>
  observed after every prior call (the split with \<open>post = []\<close> is the current call), and
  likewise \<open>maxSL\<close> and \<open>SL\<close>; and \<open>maxSH\<close> and \<open>maxSL\<close> never decrease.
\<close>

theorem cusum_invariants:
  "let s0 = AdaptiveCUSUM_new c0 a0 sp m0 v0;
       s1 = process_all s0 pre;
       s2 = process_all s0 (pre @ post)
   in 0 \<le> SH s2 \<and> 0 \<le> SL s2
    \<and> SH s1 \<le> maxSH s2 \<and> SL s1 \<le> maxSL s2
    \<and> maxSH s1 \<le> maxSH s2 \<and> maxSL s1 \<le> maxSL s2"
proof -
  define s0 where "s0 = AdaptiveCUSUM_new c0 a0 sp m0 v0"
  define s1 where "s1 = process_all s0 pre"
  define s2 where "s2 = process_all s0 (pre @ post)"
  have s2: "s2 = process_all s1 post"
    by (simp add: s2_def s1_def process_all_append)
  have i1: "cusum_inv s1"
    unfolding s1_def s0_def by (rule cusum_inv_process_all [OF cusum_inv_new])
  have i2: "cusum_inv s2"
    unfolding s2 by (rule cusum_inv_process_all [OF i1])
  have mono: "maxSH s1 \<le> maxSH s2 \<and> maxSL s1 \<le> maxSL s2"
    unfolding s2 by (rule max_mono_process_all)
  from i1 i2 mono have "0 \<le> SH s2 \<and> 0 \<le> SL s2
    \<and> SH s1 \<le> maxSH s2 \<and> SL s1 \<le> maxSL s2
    \<and> maxSH s1 \<le> maxSH s2 \<and> maxSL s1 \<le> maxSL s2"
    unfolding cusum_inv_def by linarith
  then show ?thesis
    unfolding Let_def s2_def s1_def s0_def .
qed

theorem cusum_invariants_witness:
  "let s0 = AdaptiveCUSUM_new (1/2) (1/4) 0 7 9;
       s1 = process_all s0 [(4, True), (8, True)];
       s2 = process_all s0 ([(4, True), (8, True)] @ [(5, False)])
   in SH s1 = 2 \<and> maxSH s1 = 2 \<and> SH s1 \<le> maxSH s2 \<and> 0 \<le> SH s2 \<and> 0 \<le> SL s2"
  using cusum_invariants [of "1/2" "1/4" 0 7 9 "[(4, True), (8, True)]" "[(5, False)]"]
  by (simp (no_asm_simp) add: Let_def process_all_def process_def AdaptiveCUSUM_new_def)

section \<open>Properties of the bin-count sketch value\<close>

text \<open>A loop that rewrites the elements of an array one by one is a map.\<close>

lemma fold_pointwise:
  "n \<le> length xs \<Longrightarrow>
   fold (\<lambda>i ys. ys[i := f i (ys ! i)]) [0..<n] xs
     = map (\<lambda>i. if i < n then f i (xs ! i) else xs ! i) [0..<length xs]"
proof (induction n)
  case 0
  then show ?case by (simp add: map_nth)
next
  case (Suc n)
  then have n: "n < length xs" by simp
  let ?ys = "map (\<lambda>i. if i < n then f i (xs ! i) else xs ! i) [0..<length xs]"
  have "fold (\<lambda>i ys. ys[i := f i (ys ! i)]) [0..<Suc n] xs = ?ys[n := f n (?ys ! n)]"
    using Suc by simp
  also have "\<dots> = map (\<lambda>i. if i < Suc n then f i (xs ! i) else xs ! i) [0..<length xs]"
  proof (rule nth_equalityI)
    show "length (?ys[n := f n (?ys ! n)])
          = length (map (\<lambda>i. if i < Suc n then f i (xs ! i) else xs ! i) [0..<length xs])"
      by simp
  next
    fix i assume "i < length (?ys[n := f n (?ys ! n)])"
    then have i: "i < length xs" by simp
    show "?ys[n := f n (?ys ! n)] ! i
          = map (\<lambda>i. if i < Suc n then f i (xs ! i) else xs ! i) [0..<length xs] ! i"
      using i n by (cases "i = n") (simp_all add: nth_list_update less_Suc_eq)
  qed
  finally show ?case .
qed

lemma fold_pointwise_cond:
  assumes n: "n \<le> length xs"
  shows "fold (\<lambda>i ys. if P i then ys[i := f i (ys ! i)] else ys) [0..<n] xs
     = map (\<lambda>i. if i < n \<and> P i then f i (xs ! i) else xs ! i) [0..<length xs]"
proof -
  have eq: "(\<lambda>i ys. if P i then ys[i := f i (ys ! i)] else ys)
          = (\<lambda>i ys. ys[i := (if P i then f i (ys ! i) else ys ! i)])"
    by (auto simp: fun_eq_iff)
  have "fold (\<lambda>i ys. ys[i := (if P i then f i (ys ! i) else ys ! i)]) [0..<n] xs
     = map (\<lambda>i. if i < n then (if P i then f i (xs ! i) else xs ! i) else xs ! i) [0..<length xs]"
    by (rule fold_pointwise [OF n, of "\<lambda>i y. if P i then f i y else y"])
  also have "\<dots> = map (\<lambda>i. if i < n \<and> P i then f i (xs ! i) else xs ! i) [0..<length xs]"
    by (rule map_cong) simp_all
  finally show ?thesis unfolding eq .
qed

lemma update_binCount:
  "length (binCount b) = 32 \<Longrightarrow>
   binCount (binCountSketchValue_update b key val)
     = map (\<lambda>i. if bit key i then binCount b ! i + ucast val else binCount b ! i) [0..<32]"
  using fold_pointwise_cond [of 32 "binCount b" "bit key" "\<lambda>i y. y + ucast val"]
  by (simp add: binCountSketchValue_update_def)

lemma sub_binCount:
  "length (binCount b) = 32 \<Longrightarrow>
   binCount (binCountSketchValue_sub b other)
     = map (\<lambda>i. if binCount b ! i < binCount other ! i then 0
                 else binCount b ! i - binCount other ! i) [0..<32]"
  using fold_pointwise [of 32 "binCount b" "\<lambda>i y. if y < binCount other ! i then 0 else y - binCount other ! i"]
  by (simp add: binCountSketchValue_sub_def)

lemma add_binCount:
  "length (binCount b) = 32 \<Longrightarrow>
   binCount (binCountSketchValue_add b other)
     = map (\<lambda>i. binCount b ! i + binCount other ! i) [0..<32]"
  using fold_pointwise [of 32 "binCount b" "\<lambda>i y. y + binCount other ! i"]
  by (simp add: binCountSketchValue_add_def)

lemma new_binCount: "binCount (binCountSketchValue_new x) = replicate 32 x"
  using fold_pointwise [of 32 "replicate 32 0" "\<lambda>i y. x"]
  by (simp add: binCountSketchValue_new_def list_eq_iff_nth_eq)

lemma reverseKey_fold_bit:
  "bit (fold (\<lambda>i (r :: 32 word). if P i then r OR push_bit i 1 else r) [0..<n] r0) j
     \<longleftrightarrow> bit r0 j \<or> (j < n \<and> j < 32 \<and> P j)"
  by (induction n) (auto simp: bit_simps less_Suc_eq dest: bit_imp_le_length)

lemma reverseKey_bit:
  "bit (binCountSketchValue_reverseKey b) j
     \<longleftrightarrow> j < 32 \<and> totalCount b div 2 < binCount b ! j"
  unfolding binCountSketchValue_reverseKey_def
  by (simp add: reverseKey_fold_bit)

text \<open>A value that received only updates with the key \<open>k\<close>, of weights \<open>vs\<close>.\<close>

definition insert_all :: "32 word \<Rightarrow> 16 word list \<Rightarrow> binCountSketchValue" where
  "insert_all k vs = foldl (\<lambda>b v. binCountSketchValue_update b k v) (binCountSketchValue_new 0) vs"

lemma word_half_less: "0 < (T :: 32 word) \<Longrightarrow> T div 2 < T"
  by (simp add: word_less_nat_alt unat_div unat_gt_0)

lemma word_not_less_zero: "\<not> (x :: 32 word) < 0"
  by simp

lemma insert_all_state:
  "totalCount (insert_all k vs) = (\<Sum>v\<leftarrow>vs. ucast v)
   \<and> binCount (insert_all k vs) = map (\<lambda>i. if bit k i then (\<Sum>v\<leftarrow>vs. ucast v) else 0) [0..<32]"
proof (induction vs rule: rev_induct)
  case Nil
  have "totalCount (insert_all k []) = 0"
    by (simp add: insert_all_def binCountSketchValue_new_def)
  moreover have "binCount (insert_all k []) = replicate 32 0"
    by (simp add: insert_all_def new_binCount)
  moreover have "replicate 32 (0 :: 32 word) = map (\<lambda>i. if bit k i then 0 else 0) [0..<32]"
    by (simp add: list_eq_iff_nth_eq)
  ultimately show ?case by simp
next
  case (snoc v vs)
  have step: "insert_all k (vs @ [v]) = binCountSketchValue_update (insert_all k vs) k v"
    by (simp add: insert_all_def)
  have len: "length (binCount (insert_all k vs)) = 32"
    using snoc by simp
  have tot: "totalCount (insert_all k (vs @ [v])) = (\<Sum>v\<leftarrow>vs @ [v]. ucast v)"
    using snoc by (simp add: step binCountSketchValue_update_def)
  have bins: "binCount (insert_all k (vs @ [v]))
        = map (\<lambda>i. if bit k i then (\<Sum>v\<leftarrow>vs @ [v]. ucast v) else 0) [0..<32]"
    unfolding step update_binCount [OF len]
    using snoc by (intro map_cong) simp_all
  from tot bins show ?case by simp
qed

text \<open>
  Claim C6. If a bin-count value (of 32 bits, the instance the detector uses) received
  only updates with one key \<open>k\<close>, of weights summing (in the 32-bit arithmetic of the
  counters) to \<open>T > 0\<close>, then \<^verbatim>\<open>reverseKey\<close> returns exactly \<open>k\<close>; and for any value \<open>b\<close>,
  bit \<open>i\<close> of the returned key is 1 if and only if \<open>bits[i] > total/2\<close>.
\<close>

theorem reverseKey_sound:
  assumes "T = (\<Sum>v\<leftarrow>vs. (ucast v :: 32 word))" and "0 < T"
  shows "binCountSketchValue_reverseKey
           (foldl (\<lambda>b v. binCountSketchValue_update b k v) (binCountSketchValue_new 0) vs) = k
       \<and> (\<forall>i<32. bit (binCountSketchValue_reverseKey b) i
                    \<longleftrightarrow> binCount b ! i > totalCount b div 2)"
proof -
  have "binCountSketchValue_reverseKey (insert_all k vs) = k"
  proof (rule bit_word_eqI)
    fix j assume "j < LENGTH(32)"
    then have j: "j < 32" by simp
    have "bit (binCountSketchValue_reverseKey (insert_all k vs)) j
          \<longleftrightarrow> T div 2 < (if bit k j then T else 0)"
      using j insert_all_state [of k vs] assms(1) by (simp add: reverseKey_bit)
    also have "\<dots> \<longleftrightarrow> bit k j"
      using word_half_less [OF assms(2)] by simp
    finally show "bit (binCountSketchValue_reverseKey (insert_all k vs)) j \<longleftrightarrow> bit k j" .
  qed
  then show ?thesis
    by (simp add: insert_all_def reverseKey_bit)
qed

theorem reverseKey_sound_witness:
  "(5 :: 32 word) = (\<Sum>v\<leftarrow>[3, 2 :: 16 word]. ucast v) \<and> 0 < (5 :: 32 word)
   \<and> binCountSketchValue_reverseKey
       (binCountSketchValue_update
          (binCountSketchValue_update (binCountSketchValue_new 0) 6 3) 6 2) = 6"
  using reverseKey_sound [of 5 "[3, 2]" 6]
  by simp

section \<open>Properties of the destination aggregate\<close>

text \<open>
  The saturating difference of two maps: \<open>mr\<close> keeps the entries of \<open>ma\<close> whose key \<open>mb\<close>
  lacks, drops an entry whose value would reach 0 or below, and holds the exact
  difference of the unsigned values otherwise.
\<close>

definition map_saturating_diff ::
  "('k \<rightharpoonup> 32 word) \<Rightarrow> ('k \<rightharpoonup> 32 word) \<Rightarrow> ('k \<rightharpoonup> 32 word) \<Rightarrow> bool" where
  "map_saturating_diff ma mb mr =
     (\<forall>k. case ma k of
            None \<Rightarrow> mr k = None
          | Some x \<Rightarrow>
              (case mb k of
                 None \<Rightarrow> mr k = Some x
               | Some y \<Rightarrow>
                   if uint x - uint y \<le> 0 then mr k = None
                   else (\<exists>z. mr k = Some z \<and> uint z = uint x - uint y)))"

lemma map_sub_entry_distinct:
  "distinct (map fst mp) \<Longrightarrow> distinct (map fst (map_sub_entry mp key val))"
  by (simp add: map_sub_entry_def distinct_update distinct_delete split: option.splits)

lemma map_of_map_sub_entry:
  "map_of (map_sub_entry mp key val) k =
     (if k = key then
        (case map_of mp key of None \<Rightarrow> None
         | Some x \<Rightarrow> if x > val then Some (x - val) else None)
      else map_of mp k)"
  by (simp add: map_sub_entry_def update_conv' delete_conv' split: option.splits)

lemma sub_entries_distinct:
  "distinct (map fst mp) \<Longrightarrow> distinct (map fst (sub_entries mp other))"
  unfolding sub_entries_def
  by (induction other arbitrary: mp) (auto simp: map_sub_entry_distinct)

lemma map_of_sub_entries:
  "distinct (map fst other) \<Longrightarrow>
   map_of (sub_entries mp other) k =
     (case map_of mp k of
        None \<Rightarrow> None
      | Some x \<Rightarrow> (case map_of other k of
                     None \<Rightarrow> Some x
                   | Some y \<Rightarrow> if x > y then Some (x - y) else None))"
  unfolding sub_entries_def
proof (induction other arbitrary: mp)
  case Nil
  show ?case by (simp split: option.splits)
next
  case (Cons e other)
  obtain key val where e: "e = (key, val)" by (cases e)
  from Cons.prems have d: "distinct (map fst other)" and nk: "key \<notin> fst ` set other"
    by (simp_all add: e)
  have none: "k = key \<Longrightarrow> map_of other k = None"
    using nk by (simp add: map_of_eq_None_iff)
  show ?case
    using Cons.IH [OF d, of "map_sub_entry mp key val"] none
    by (auto simp: e map_of_map_sub_entry split: option.splits)
qed

lemma word_sat_sub_uint:
  "uint (if (a :: 'a::len word) < b then 0 else a - b) = max (uint a - uint b) 0"
  by (auto simp: word_less_def uint_sub_if' max_def not_less)

lemma word_sat_sub_cases:
  "((a :: 'a::len word) < b \<longrightarrow> max (uint a - uint b) 0 = 0)
   \<and> (\<not> a < b \<longrightarrow> uint (a - b) = max (uint a - uint b) 0)"
  by (auto simp: word_less_def uint_sub_if' max_def not_less)

lemma sub_entries_saturating:
  assumes "distinct (map fst other)"
  shows "map_saturating_diff (map_of mp) (map_of other) (map_of (sub_entries mp other))"
  unfolding map_saturating_diff_def
proof
  fix k
  show "case map_of mp k of None \<Rightarrow> map_of (sub_entries mp other) k = None
        | Some x \<Rightarrow> (case map_of other k of None \<Rightarrow> map_of (sub_entries mp other) k = Some x
             | Some y \<Rightarrow> if uint x - uint y \<le> 0 then map_of (sub_entries mp other) k = None
                         else (\<exists>z. map_of (sub_entries mp other) k = Some z \<and> uint z = uint x - uint y))"
    unfolding map_of_sub_entries [OF assms]
    by (auto simp: word_less_def uint_sub_if' split: option.splits)
qed

lemma bcv_sub_total:
  "uint (totalCount (binCountSketchValue_sub a b)) = max (uint (totalCount a) - uint (totalCount b)) 0"
  by (simp add: binCountSketchValue_sub_def word_sat_sub_cases)

lemma bcv_sub_bins:
  assumes "length (binCount a) = 32" and "i < 32"
  shows "uint (binCount (binCountSketchValue_sub a b) ! i)
         = max (uint (binCount a ! i) - uint (binCount b ! i)) 0"
  using assms(2) unfolding sub_binCount [OF assms(1)]
  by (simp add: word_sat_sub_cases del: upt_Suc)

text \<open>
  Claim C7. After \<open>a -= b\<close> every scalar field of \<open>a\<close> (\<open>total\<close>, each \<open>bits[i]\<close>,
  \<open>byteCount\<close>, \<open>packetCount\<close>, \<open>flowCount\<close>, \<open>sentBytes\<close>, \<open>sentFlows\<close>) is the saturating
  difference \<open>max(a_field - b_field, 0)\<close> of the unsigned values, with no wrap-around;
  and in both maps an entry of \<open>a\<close> whose key \<open>b\<close> has too is removed when its value would
  reach 0 or below and otherwise holds the exact difference, the other entries of \<open>a\<close>
  being kept. The hypotheses say that the values are well formed: the array has its 32
  counters and the keys of the maps of \<open>b\<close> are distinct.
\<close>

theorem saturating_subtraction:
  assumes "length (binCount (reversibleKey a)) = 32"
    and "distinct (map fst (communicatedWith b))"
    and "distinct (map fst (ipSubnets b))"
  shows "let r = ddosDetectorValue_sub a b in
      uint (totalCount (reversibleKey r))
        = max (uint (totalCount (reversibleKey a)) - uint (totalCount (reversibleKey b))) 0
    \<and> (\<forall>i<32. uint (binCount (reversibleKey r) ! i)
          = max (uint (binCount (reversibleKey a) ! i) - uint (binCount (reversibleKey b) ! i)) 0)
    \<and> uint (byteCount r) = max (uint (byteCount a) - uint (byteCount b)) 0
    \<and> uint (packetCount r) = max (uint (packetCount a) - uint (packetCount b)) 0
    \<and> uint (flowCount r) = max (uint (flowCount a) - uint (flowCount b)) 0
    \<and> uint (sentBytes r) = max (uint (sentBytes a) - uint (sentBytes b)) 0
    \<and> uint (sentFlows r) = max (uint (sentFlows a) - uint (sentFlows b)) 0
    \<and> map_saturating_diff (map_of (communicatedWith a)) (map_of (communicatedWith b))
          (map_of (communicatedWith r))
    \<and> map_saturating_diff (map_of (ipSubnets a)) (map_of (ipSubnets b))
          (map_of (ipSubnets r))"
proof -
  define r where "r = ddosDetectorValue_sub a b"
  have rk: "reversibleKey r = binCountSketchValue_sub (reversibleKey a) (reversibleKey b)"
    by (simp add: r_def ddosDetectorValue_sub_def Let_def)
  have 1: "uint (totalCount (reversibleKey r))
        = max (uint (totalCount (reversibleKey a)) - uint (totalCount (reversibleKey b))) 0"
    unfolding rk by (rule bcv_sub_total)
  have 2: "\<forall>i<32. uint (binCount (reversibleKey r) ! i)
          = max (uint (binCount (reversibleKey a) ! i) - uint (binCount (reversibleKey b) ! i)) 0"
    unfolding rk using bcv_sub_bins [OF assms(1)] by blast
  have 3: "uint (byteCount r) = max (uint (byteCount a) - uint (byteCount b)) 0"
    by (simp add: r_def ddosDetectorValue_sub_def Let_def word_sat_sub_cases)
  have 4: "uint (packetCount r) = max (uint (packetCount a) - uint (packetCount b)) 0"
    by (simp add: r_def ddosDetectorValue_sub_def Let_def word_sat_sub_cases)
  have 5: "uint (flowCount r) = max (uint (flowCount a) - uint (flowCount b)) 0"
    by (simp add: r_def ddosDetectorValue_sub_def Let_def word_sat_sub_cases)
  have 6: "uint (sentBytes r) = max (uint (sentBytes a) - uint (sentBytes b)) 0"
    by (simp add: r_def ddosDetectorValue_sub_def Let_def word_sat_sub_cases)
  have 7: "uint (sentFlows r) = max (uint (sentFlows a) - uint (sentFlows b)) 0"
    by (simp add: r_def ddosDetectorValue_sub_def Let_def word_sat_sub_cases)
  have cw: "communicatedWith r = sub_entries (communicatedWith a) (communicatedWith b)"
    by (simp add: r_def ddosDetectorValue_sub_def Let_def)
  have sn: "ipSubnets r = sub_entries (ipSubnets a) (ipSubnets b)"
    by (simp add: r_def ddosDetectorValue_sub_def Let_def)
  have 8: "map_saturating_diff (map_of (communicatedWith a)) (map_of (communicatedWith b))
          (map_of (communicatedWith r))"
    unfolding cw by (rule sub_entries_saturating [OF assms(2)])
  have 9: "map_saturating_diff (map_of (ipSubnets a)) (map_of (ipSubnets b))
          (map_of (ipSubnets r))"
    unfolding sn by (rule sub_entries_saturating [OF assms(3)])
  from 1 2 3 4 5 6 7 8 9 show ?thesis
    unfolding Let_def r_def by blast
qed

definition da_example_a :: ddosDetectorValue where
  "da_example_a = \<lparr>sentBytes = 10, sentFlows = 1, packetCount = 2, byteCount = 1000, flowCount = 2,
      reversibleKey = binCountSketchValue_update (binCountSketchValue_new 0) 5 2,
      communicatedWith = [(7, 2), (9, 1)], ipSubnets = [(5, 2)]\<rparr>"

definition da_example_b :: ddosDetectorValue where
  "da_example_b = \<lparr>sentBytes = 20, sentFlows = 1, packetCount = 1, byteCount = 400, flowCount = 3,
      reversibleKey = binCountSketchValue_update (binCountSketchValue_new 0) 4 3,
      communicatedWith = [(7, 1), (9, 1)], ipSubnets = [(5, 3), (6, 1)]\<rparr>"

theorem saturating_subtraction_witness:
  "length (binCount (reversibleKey da_example_a)) = 32
   \<and> distinct (map fst (communicatedWith da_example_b))
   \<and> distinct (map fst (ipSubnets da_example_b))
   \<and> uint (byteCount (ddosDetectorValue_sub da_example_a da_example_b))
        = max (uint (byteCount da_example_a) - uint (byteCount da_example_b)) 0
   \<and> (let r = ddosDetectorValue_sub da_example_a da_example_b in
        totalCount (reversibleKey r) = 0 \<and> byteCount r = 600 \<and> sentBytes r = 0
      \<and> communicatedWith r = [(7, 1)] \<and> ipSubnets r = [])"
proof -
  have h1: "length (binCount (reversibleKey da_example_a)) = 32"
    by (simp add: da_example_a_def update_binCount new_binCount)
  have h2: "distinct (map fst (communicatedWith da_example_b))"
    by (simp add: da_example_b_def)
  have h3: "distinct (map fst (ipSubnets da_example_b))"
    by (simp add: da_example_b_def)
  have inst: "uint (byteCount (ddosDetectorValue_sub da_example_a da_example_b))
        = max (uint (byteCount da_example_a) - uint (byteCount da_example_b)) 0"
    using saturating_subtraction [OF h1 h2 h3] unfolding Let_def by blast
  have ev: "let r = ddosDetectorValue_sub da_example_a da_example_b in
        totalCount (reversibleKey r) = 0 \<and> byteCount r = 600 \<and> sentBytes r = 0
      \<and> communicatedWith r = [(7, 1)] \<and> ipSubnets r = []"
    by code_simp
  from h1 h2 h3 inst ev show ?thesis by blast
qed

section \<open>Properties of the alert path\<close>

lemma getTopNSrcIPs_loop_acc:
  "topN \<noteq> [] \<Longrightarrow> getTopNSrcIPs_loop cfg xs topN \<noteq> []"
  by (induction xs arbitrary: topN) (auto simp: Let_def List.insert_def)

lemma getTopNSrcIPs_loop_subset:
  "set (getTopNSrcIPs_loop cfg xs topN)
     \<subseteq> set topN \<union> {ip \<in> fst ` set xs. \<not> isWhitelisted cfg ip}"
proof (induction xs arbitrary: topN)
  case Nil
  show ?case by simp
next
  case (Cons x xs)
  show ?case
  proof (cases "isWhitelisted cfg (fst x)")
    case True
    then show ?thesis using Cons [of topN] by auto
  next
    case False
    show ?thesis
    proof (cases "int (length (List.insert (fst x) topN)) = n_top cfg")
      case True
      then show ?thesis using False by (auto simp: Let_def)
    next
      case neq: False
      have "set (getTopNSrcIPs_loop cfg (x # xs) topN)
            = set (getTopNSrcIPs_loop cfg xs (List.insert (fst x) topN))"
        using False neq by (simp add: Let_def)
      also have "\<dots> \<subseteq> set (List.insert (fst x) topN)
                        \<union> {ip \<in> fst ` set xs. \<not> isWhitelisted cfg ip}"
        by (rule Cons)
      also have "\<dots> \<subseteq> set topN \<union> {ip \<in> fst ` set (x # xs). \<not> isWhitelisted cfg ip}"
        using False by auto
      finally show ?thesis .
    qed
  qed
qed

lemma getTopNSrcIPs_loop_nonempty:
  "getTopNSrcIPs_loop cfg xs [] \<noteq> [] \<longleftrightarrow> (\<exists>p \<in> set xs. \<not> isWhitelisted cfg (fst p))"
proof (induction xs)
  case Nil
  show ?case by simp
next
  case (Cons x xs)
  show ?case
  proof (cases "isWhitelisted cfg (fst x)")
    case True
    with Cons show ?thesis by simp
  next
    case False
    have "getTopNSrcIPs_loop cfg (x # xs) [] \<noteq> []"
      using False getTopNSrcIPs_loop_acc [of "[fst x]" cfg xs]
      by (simp add: Let_def)
    with False show ?thesis by auto
  qed
qed

lemma getTopNSrcIPs_nonempty:
  "snd (getTopNSrcIPs cfg srcs []) \<noteq> [] \<longleftrightarrow> (\<exists>p \<in> set srcs. \<not> isWhitelisted cfg (fst p))"
  by (simp add: getTopNSrcIPs_def Let_def getTopNSrcIPs_loop_nonempty)

definition allPositive :: "detectorConfig \<Rightarrow> ddosDetector \<Rightarrow> 32 word \<Rightarrow> nat \<Rightarrow> bool" where
  "allPositive cfg st maxIP j =
     (isPositiveAnomaly (cusumBytes st ! j) (getMultiplier cfg maxIP)
      \<and> isPositiveAnomaly (cusumPackets st ! j) (getMultiplier cfg maxIP)
      \<and> isPositiveAnomaly (cusumEntropy st ! j) (getMultiplier cfg maxIP)
      \<and> isPositiveAnomaly (cusumBytesReceivedToSent st ! j) (getMultiplier cfg maxIP)
      \<and> isPositiveAnomaly (cusumFlowsReceivedToSent st ! j) (getMultiplier cfg maxIP))"

lemma detectAnomaly_cases:
  "(allPositive cfg st maxIP j \<and> (\<exists>p \<in> set srcs. \<not> isWhitelisted cfg (fst p))
      \<and> (\<exists>a. detectAnomaly cfg st maxIP j srcs
                = (True, st\<lparr>dosAlertsQueue := dosAlertsQueue st @ [a]\<rparr>)
              \<and> dstIP a = maxIP \<and> cusumID a = word_of_nat j
              \<and> alertSrcIPs a = snd (getTopNSrcIPs cfg srcs [])))
   \<or> (\<not> (allPositive cfg st maxIP j \<and> (\<exists>p \<in> set srcs. \<not> isWhitelisted cfg (fst p)))
      \<and> detectAnomaly cfg st maxIP j srcs = (False, st))"
proof (cases "allPositive cfg st maxIP j")
  case False
  then show ?thesis
    by (auto simp: detectAnomaly_def allPositive_def Let_def)
next
  case ap: True
  show ?thesis
  proof (cases "\<exists>p \<in> set srcs. \<not> isWhitelisted cfg (fst p)")
    case True
    then have ne: "snd (getTopNSrcIPs cfg srcs []) \<noteq> []"
      by (simp add: getTopNSrcIPs_nonempty)
    show ?thesis
      using ap True ne
      by (auto simp: detectAnomaly_def allPositive_def Let_def)
  next
    case False
    then have ne: "snd (getTopNSrcIPs cfg srcs []) = []"
      using getTopNSrcIPs_nonempty [of cfg srcs] by blast
    show ?thesis
      using ap False ne
      by (auto simp: detectAnomaly_def allPositive_def Let_def)
  qed
qed

lemma process_lastAlert: "lastAlert (process acu x l) = lastAlert acu"
  by (simp add: process_def Let_def)

lemma nth_update_lastAlert:
  "lastAlert (xs[j := process (xs ! j) x l] ! j) = lastAlert (xs ! j)"
proof (cases "j < length xs")
  case True
  then show ?thesis by (simp add: process_lastAlert)
next
  case False
  then show ?thesis by (simp add: list_update_beyond)
qed

lemma updateMetrics_frame:
  "dosAlertsQueue (updateMetrics st srcs resultCell learning j) = dosAlertsQueue st
   \<and> lastAlert (cusumBytes (updateMetrics st srcs resultCell learning j) ! j)
       = lastAlert (cusumBytes st ! j)"
  by (simp add: updateMetrics_def Let_def nth_update_lastAlert split: prod.splits)

definition quietElapsed :: "detectorConfig \<Rightarrow> int \<Rightarrow> ddosDetector \<Rightarrow> nat \<Rightarrow> bool" where
  "quietElapsed cfg currTime st j =
     (currTime - lastAlert (cusumBytes st ! j) > timeBetweenAlertsSecs cfg * ticksPerSecond cfg)"

lemma alertColumn_cases:
  "(thresholdSet \<and> quietElapsed cfg currTime st j \<and> allPositive cfg st maxIP j
      \<and> (\<exists>p \<in> set srcs. \<not> isWhitelisted cfg (fst p))
      \<and> (\<exists>a. dosAlertsQueue (alertColumn cfg currTime thresholdSet st maxIP j srcs)
                = dosAlertsQueue st @ [a]
              \<and> dstIP a = maxIP \<and> cusumID a = word_of_nat j))
   \<or> (\<not> (thresholdSet \<and> quietElapsed cfg currTime st j \<and> allPositive cfg st maxIP j
            \<and> (\<exists>p \<in> set srcs. \<not> isWhitelisted cfg (fst p)))
      \<and> alertColumn cfg currTime thresholdSet st maxIP j srcs = st)"
proof (cases "thresholdSet \<and> quietElapsed cfg currTime st j")
  case False
  then show ?thesis
    by (auto simp: alertColumn_def quietElapsed_def)
next
  case True
  then have guard: "thresholdSet
      \<and> lastAlert (cusumBytes st ! j) + timeBetweenAlertsSecs cfg * ticksPerSecond cfg < currTime"
    by (auto simp: quietElapsed_def)
  from detectAnomaly_cases [of cfg st maxIP j srcs] show ?thesis
  proof (elim disjE conjE exE)
    fix a
    assume ap: "allPositive cfg st maxIP j"
      and ex: "\<exists>p\<in>set srcs. \<not> isWhitelisted cfg (fst p)"
      and da: "detectAnomaly cfg st maxIP j srcs
                 = (True, st\<lparr>dosAlertsQueue := dosAlertsQueue st @ [a]\<rparr>)"
      and a: "dstIP a = maxIP" "cusumID a = word_of_nat j"
    have "dosAlertsQueue (alertColumn cfg currTime thresholdSet st maxIP j srcs)
            = dosAlertsQueue st @ [a]"
      using guard da by (simp add: alertColumn_def)
    with True ap ex a show ?thesis by blast
  next
    assume no: "\<not> (allPositive cfg st maxIP j \<and> (\<exists>p\<in>set srcs. \<not> isWhitelisted cfg (fst p)))"
      and da: "detectAnomaly cfg st maxIP j srcs = (False, st)"
    have "alertColumn cfg currTime thresholdSet st maxIP j srcs = st"
      using guard da by (simp add: alertColumn_def)
    with no show ?thesis by blast
  qed
qed

lemma alertColumn_queue:
  "dosAlertsQueue (alertColumn cfg currTime thresholdSet st maxIP j srcs) = dosAlertsQueue st
   \<or> (thresholdSet \<and> quietElapsed cfg currTime st j \<and> allPositive cfg st maxIP j
      \<and> (\<exists>p \<in> set srcs. \<not> isWhitelisted cfg (fst p))
      \<and> (\<exists>a. dosAlertsQueue (alertColumn cfg currTime thresholdSet st maxIP j srcs)
                = dosAlertsQueue st @ [a]
              \<and> dstIP a = maxIP \<and> cusumID a = word_of_nat j))"
  using alertColumn_cases [of thresholdSet cfg currTime st j maxIP srcs] by metis

text \<open>
  Claim C1. When the detection loop has worked on column \<open>j\<close> of a snapshot and returned,
  either the alert queue is as it was, or exactly one alert has been appended, and then:
  the five CUSUMs of column \<open>j\<close>, as they stand after this window's samples, all report a
  positive anomaly at the multiplier of the reversed destination \<open>maxIP\<close>; the quiet
  period has elapsed, \<open>now - lastAlert[j] > T_quiet\<close>; and some reversed source address is
  not whitelisted. So if one of the three conditions fails, no alert is enqueued for that
  column in that window.
\<close>

theorem alert_only_when:
  "case processColumn cfg currTime thresholdSet learning j (st, dstSnap, srcSnap) of
     Inl e \<Rightarrow> True
   | Inr (st', dstSnap', srcSnap') \<Rightarrow>
       dosAlertsQueue st' = dosAlertsQueue st
       \<or> (\<exists>maxIP resultCell reversedSrcIPs a.
            reverseAllKeys cfg 0 ddosDetectorValue_new dstSnap srcSnap j []
              = Inr (maxIP, resultCell, dstSnap', reversedSrcIPs)
          \<and> dosAlertsQueue st' = dosAlertsQueue st @ [a]
          \<and> dstIP a = maxIP \<and> cusumID a = word_of_nat j
          \<and> allPositive cfg (updateMetrics st reversedSrcIPs resultCell learning j) maxIP j
          \<and> currTime - lastAlert (cusumBytes st ! j)
               > timeBetweenAlertsSecs cfg * ticksPerSecond cfg
          \<and> (\<exists>p \<in> set reversedSrcIPs. \<not> isWhitelisted cfg (fst p)))"
proof (cases "count (dstSnap ! 0 ! j) = 0")
  case True
  then show ?thesis by (simp add: processColumn_def)
next
  case nz: False
  show ?thesis
  proof (cases "reverseAllKeys cfg 0 ddosDetectorValue_new dstSnap srcSnap j []")
    case (Inl e)
    with nz show ?thesis by (simp add: processColumn_def)
  next
    case (Inr r)
    obtain maxIP resultCell dstSnap1 reversedSrcIPs
      where r: "r = (maxIP, resultCell, dstSnap1, reversedSrcIPs)"
      by (cases r) auto
    show ?thesis
    proof (cases "maxIP = 0")
      case True
      with nz Inr r show ?thesis by (simp add: processColumn_def)
    next
      case False
      define st1 where "st1 = updateMetrics st reversedSrcIPs resultCell learning j"
      have pc: "processColumn cfg currTime thresholdSet learning j (st, dstSnap, srcSnap)
            = Inr (alertColumn cfg currTime thresholdSet st1 maxIP j reversedSrcIPs,
                   dstSnap1, srcSnap)"
        using nz Inr r False by (simp add: processColumn_def st1_def Let_def)
      have fr: "dosAlertsQueue st1 = dosAlertsQueue st"
        "lastAlert (cusumBytes st1 ! j) = lastAlert (cusumBytes st ! j)"
        using updateMetrics_frame [of st reversedSrcIPs resultCell learning j]
        by (simp_all add: st1_def)
      from alertColumn_queue [of cfg currTime thresholdSet st1 maxIP j reversedSrcIPs]
      show ?thesis
        unfolding pc using Inr r fr
        by (auto simp: quietElapsed_def st1_def)
    qed
  qed
qed

section \<open>A small detector\<close>

text \<open>
  A detector with sketches of one row and one column that protects the prefix
  10.0.0.0/24 with multiplier 2, one flow from 7.0.0.0 to 10.0.0.5, and the snapshot
  that the ingress hands over after this flow.
\<close>

definition cfg_ex :: detectorConfig where
  "cfg_ex = \<lparr>protectedPrefixes = (\<lambda>ip. if ip AND 0x00FFFFFF = 10 then Some 2 else None),
             whitelistedPrefixes = (\<lambda>ip. False),
             hashDst = (\<lambda>i k. 0), hashSrc = (\<lambda>i k. 0),
             outerSizeDstIPs = 1, innerSizeDstIPs = 1,
             learningSecs = 30, quantile = 3/4, n_top = 5,
             timeBetweenAlertsSecs = 300, ticksPerSecond = 1\<rparr>"

definition acu_ex :: AdaptiveCUSUM where
  "acu_ex = process (AdaptiveCUSUM_new 0 (1/2) 0 0 0) 0 True"

definition ingress_ex :: ddosDetector where
  "ingress_ex = \<lparr>dstIPs = CountMinSketch_new 1 1 ddosDetectorValue_new,
            srcIPs = CountMinSketch_new 1 1 (binCountSketchValue_new 0),
            cusumBytes = [], cusumPackets = [], cusumEntropy = [],
            cusumBytesReceivedToSent = [], cusumFlowsReceivedToSent = [],
            dosAlertsQueue = [], dosFalsePositivesQueue = []\<rparr>"

definition st_ex :: ddosDetector where
  "st_ex = ingress_ex\<lparr>cusumBytes := [acu_ex], cusumPackets := [acu_ex], cusumEntropy := [acu_ex],
            cusumBytesReceivedToSent := [acu_ex], cusumFlowsReceivedToSent := [acu_ex]\<rparr>"

definition flow_ex :: netflowRecord where
  "flow_ex = \<lparr>srcAddr = 7, dstAddr = 0x0500000A, packets = 2, bytes = 1000\<rparr>"

definition dstSnap_ex :: BCSketchTypeDstIPs where
  "dstSnap_ex = dstIPs (processCurrentFlow cfg_ex ingress_ex flow_ex)"

definition srcSnap_ex :: BCSketchTypeSrcIPs where
  "srcSnap_ex = srcIPs (processCurrentFlow cfg_ex ingress_ex flow_ex)"

definition resultCell_ex :: ddosDetectorValue where
  "resultCell_ex = ddosDetectorValue_add ddosDetectorValue_new (value (dstSnap_ex ! 0 ! 0))"

definition dstSnap1_ex :: BCSketchTypeDstIPs where
  "dstSnap1_ex = CountMinSketch_dec ddosDetectorValue_sub (hashDst cfg_ex) dstSnap_ex 10
                   (dstSnap_ex ! 0 ! 0)"

theorem alert_only_when_witness:
  "(case processColumn cfg_ex 1000 True False 0 (st_ex, dstSnap_ex, srcSnap_ex) of
      Inl e \<Rightarrow> False
    | Inr (st', dstSnap', srcSnap') \<Rightarrow>
        map dstIP (dosAlertsQueue st') = [10])
   \<and> dosAlertsQueue st_ex = []"
proof -
  have ra: "reverseAllKeys cfg_ex 0 ddosDetectorValue_new dstSnap_ex srcSnap_ex 0 []
             = Inr (10, resultCell_ex, dstSnap1_ex, [(7, 1)])"
    by code_simp
  have rc: "byteCount resultCell_ex = 1000 \<and> packetCount resultCell_ex = 2
           \<and> flowCount resultCell_ex = 1 \<and> sentBytes resultCell_ex = 0
           \<and> sentFlows resultCell_ex = 0 \<and> map snd (ipSubnets resultCell_ex) = [1]
           \<and> count (dstSnap_ex ! 0 ! 0) = 1"
    by code_simp
  have cm: "computeMetrics [(7, 1)] resultCell_ex = (1, 1001, 2)"
    using rc by (simp add: computeMetrics_def calculateNormalizedEntropy_def Let_def)
  have acu: "acu_ex = (AdaptiveCUSUM_new 0 (1/2) 0 0 0)\<lparr>first := False\<rparr>"
    by (simp add: acu_ex_def process_def AdaptiveCUSUM_new_def)
  have pr: "\<And>x. x > 0 \<Longrightarrow> SH (process acu_ex x False) = x / 2
      \<and> thresholdHigh (process acu_ex x False) = 0
      \<and> lastAlert (process acu_ex x False) = 0"
    by (simp add: acu process_def AdaptiveCUSUM_new_def Let_def)
  define st1 where "st1 = updateMetrics st_ex [(7, 1)] resultCell_ex False 0"
  have st1: "cusumBytes st1 = [process acu_ex 1000 False]"
    "cusumPackets st1 = [process acu_ex 2 False]"
    "cusumEntropy st1 = [process acu_ex 1 False]"
    "cusumBytesReceivedToSent st1 = [process acu_ex 1001 False]"
    "cusumFlowsReceivedToSent st1 = [process acu_ex 2 False]"
    "dosAlertsQueue st1 = []"
    using rc by (simp_all add: st1_def updateMetrics_def cm st_ex_def ingress_ex_def)
  have ap: "allPositive cfg_ex st1 10 0"
    using pr [of 1000] pr [of 2] pr [of 1] pr [of 1001]
    by (simp add: allPositive_def st1 isPositiveAnomaly_def)
  have quiet: "quietElapsed cfg_ex 1000 st1 0"
    using pr [of 1000] by (simp add: quietElapsed_def st1 cfg_ex_def)
  have nonwl: "\<exists>p \<in> set [(7, 1)]. \<not> isWhitelisted cfg_ex (fst p)"
    by (simp add: isWhitelisted_def cfg_ex_def)
  have al: "map dstIP (dosAlertsQueue (alertColumn cfg_ex 1000 True st1 10 0 [(7, 1)])) = [10]"
    using alertColumn_cases [where thresholdSet = True and cfg = cfg_ex and currTime = 1000
            and st = st1 and j = 0 and maxIP = 10 and srcs = "[(7, 1)]"] ap quiet nonwl
    by (auto simp: st1)
  have pc: "processColumn cfg_ex 1000 True False 0 (st_ex, dstSnap_ex, srcSnap_ex)
        = Inr (alertColumn cfg_ex 1000 True st1 10 0 [(7, 1)], dstSnap1_ex, srcSnap_ex)"
    using rc by (simp add: processColumn_def ra st1_def Let_def)
  have q0: "dosAlertsQueue st_ex = []"
    by (simp add: st_ex_def ingress_ex_def)
  show ?thesis
    using alert_only_when [where cfg = cfg_ex and currTime = 1000 and thresholdSet = True
            and learning = False and j = 0 and st = st_ex and dstSnap = dstSnap_ex
            and srcSnap = srcSnap_ex]
    by (simp (no_asm_simp) add: pc al q0)
qed

section \<open>False-positive feedback\<close>

lemma setThresholdHighAt_Inr:
  "j < length cusums \<Longrightarrow>
   setThresholdHighAt cusums j t = Inr (cusums[j := (cusums ! j)\<lparr>thresholdHigh := t\<rparr>])"
  by (simp add: setThresholdHighAt_def setThresholdHigh_def)

text \<open>
  Claim C4. When the engine dequeues a false-positive record \<open>fp\<close> whose destination \<open>D\<close>
  lies in a protected prefix with sensitivity multiplier \<open>mu\<close>, not 0, and whose \<open>cusumID\<close>
  is a column \<open>j\<close> of the five vectors, the call returns, and in each of the five vectors
  the CUSUM of column \<open>j\<close> has its high threshold set to the measured value of \<open>fp\<close> for
  that metric divided by \<open>mu\<close>; nothing else changes: the other fields of these five
  CUSUMs, the CUSUMs of all other columns, the sketches and the alert queue are as
  before.
\<close>

theorem false_positive_lowering:
  assumes "dosFalsePositivesQueue st = fp # rest"
    and "protectedPrefixes cfg (dstIP fp) = Some mu" and "mu \<noteq> 0"
    and "j = unat (cusumID fp)"
    and "j < length (cusumBytes st)" and "j < length (cusumPackets st)"
    and "j < length (cusumEntropy st)" and "j < length (cusumBytesReceivedToSent st)"
    and "j < length (cusumFlowsReceivedToSent st)"
  shows "checkFalsePositives cfg st =
     Inr (st\<lparr>dosFalsePositivesQueue := rest,
             cusumEntropy := (cusumEntropy st)
               [j := (cusumEntropy st ! j)\<lparr>thresholdHigh := measuredEntropy fp / mu\<rparr>],
             cusumBytes := (cusumBytes st)
               [j := (cusumBytes st ! j)\<lparr>thresholdHigh := measuredBytes fp / mu\<rparr>],
             cusumPackets := (cusumPackets st)
               [j := (cusumPackets st ! j)\<lparr>thresholdHigh := measuredPackets fp / mu\<rparr>],
             cusumBytesReceivedToSent := (cusumBytesReceivedToSent st)
               [j := (cusumBytesReceivedToSent st ! j)
                       \<lparr>thresholdHigh := measuredBytesReceivedToSent fp / mu\<rparr>],
             cusumFlowsReceivedToSent := (cusumFlowsReceivedToSent st)
               [j := (cusumFlowsReceivedToSent st ! j)
                       \<lparr>thresholdHigh := measuredFlowsReceivedToSent fp / mu\<rparr>]\<rparr>)"
proof -
  have mult: "getMultiplier cfg (dstIP fp) = mu"
    using assms(2) by (simp add: getMultiplier_def)
  show ?thesis
    using assms(1,3-9)
    by (simp add: checkFalsePositives_def Let_def mult setThresholdHighAt_Inr)
qed

definition fp_ex :: dos_alert where
  "fp_ex = \<lparr>thresholdBytes = 0, thresholdPackets = 0, thresholdBytesReceivedToSent = 0,
            thresholdFlowsReceivedToSent = 0, thresholdEntropy = 0,
            measuredBytes = 500, measuredPackets = 1, measuredBytesReceivedToSent = 1001 / 2,
            measuredFlowsReceivedToSent = 1, measuredEntropy = 1 / 2,
            dstIP = 10, cusumID = 0, alertSrcIPs = [7]\<rparr>"

theorem false_positive_lowering_witness:
  "protectedPrefixes cfg_ex (dstIP fp_ex) = Some 2 \<and> (2 :: real) \<noteq> 0
   \<and> 0 = unat (cusumID fp_ex)
   \<and> (case checkFalsePositives cfg_ex (st_ex\<lparr>dosFalsePositivesQueue := [fp_ex]\<rparr>) of
        Inl e \<Rightarrow> False
      | Inr st' \<Rightarrow>
          map thresholdHigh (cusumBytes st') = [250]
          \<and> map thresholdHigh (cusumPackets st') = [1 / 2]
          \<and> map thresholdHigh (cusumEntropy st') = [1 / 4]
          \<and> map thresholdHigh (cusumBytesReceivedToSent st') = [1001 / 4]
          \<and> map thresholdHigh (cusumFlowsReceivedToSent st') = [1 / 2]
          \<and> dosFalsePositivesQueue st' = [])"
proof -
  have q: "dosFalsePositivesQueue (st_ex\<lparr>dosFalsePositivesQueue := [fp_ex]\<rparr>) = fp_ex # []"
    by simp
  have p: "protectedPrefixes cfg_ex (dstIP fp_ex) = Some 2"
    by (simp add: cfg_ex_def fp_ex_def)
  have nz: "(2 :: real) \<noteq> 0"
    by simp
  have j: "0 = unat (cusumID fp_ex)"
    by (simp add: fp_ex_def)
  have "case checkFalsePositives cfg_ex (st_ex\<lparr>dosFalsePositivesQueue := [fp_ex]\<rparr>) of
        Inl e \<Rightarrow> False
      | Inr st' \<Rightarrow>
          map thresholdHigh (cusumBytes st') = [250]
          \<and> map thresholdHigh (cusumPackets st') = [1 / 2]
          \<and> map thresholdHigh (cusumEntropy st') = [1 / 4]
          \<and> map thresholdHigh (cusumBytesReceivedToSent st') = [1001 / 4]
          \<and> map thresholdHigh (cusumFlowsReceivedToSent st') = [1 / 2]
          \<and> dosFalsePositivesQueue st' = []"
    using false_positive_lowering [OF q p nz j]
    by (simp add: st_ex_def ingress_ex_def) (simp add: fp_ex_def)
  with p j show ?thesis by simp
qed

text \<open>A record whose destination is outside the protected prefixes: the multiplier is 0
  and the model reports that the quotients are not finite.\<close>

lemma false_positive_unprotected:
  "dosFalsePositivesQueue st = fp # rest \<Longrightarrow> protectedPrefixes cfg (dstIP fp) = None \<Longrightarrow>
   checkFalsePositives cfg st = Inl NonFiniteDouble"
  by (simp add: checkFalsePositives_def Let_def getMultiplier_def)

section \<open>Threshold installation\<close>

definition acu_loud :: AdaptiveCUSUM where
  "acu_loud = process_all (AdaptiveCUSUM_new 0 (1/2) 0 0 0) [(10, True), (14, True), (2, True)]"

definition acu_silent :: AdaptiveCUSUM where
  "acu_silent = AdaptiveCUSUM_new 0 (1/2) 0 0 0"

definition st_learned :: ddosDetector where
  "st_learned = ingress_ex\<lparr>cusumBytes := [acu_loud, acu_silent],
      cusumPackets := [acu_silent, acu_silent], cusumEntropy := [acu_loud, acu_silent],
      cusumBytesReceivedToSent := [acu_silent, acu_silent],
      cusumFlowsReceivedToSent := [acu_silent, acu_silent]\<rparr>"

lemma acu_loud_max: "maxSH acu_loud = 2 \<and> maxSL acu_loud = 5"
  by (simp add: acu_loud_def process_all_def process_def AdaptiveCUSUM_new_def Let_def)

lemma acu_silent_max: "maxSH acu_silent = 0 \<and> maxSL acu_silent = 0"
  by (simp add: acu_silent_def AdaptiveCUSUM_new_def)

lemma learned_column_bytes:
  "cusumBytes (setCusumTresholds_learned qB qE qBR qP qLE qF j s)
     = (cusumBytes s)[j := setCusumThresholdHigh (cusumBytes s ! j) qB]"
  by (simp add: setCusumTresholds_learned_def Let_def)

lemma learned_column_entropy:
  "cusumEntropy (setCusumTresholds_learned qB qE qBR qP qLE qF j s)
     = (cusumEntropy s)
         [j := setCusumThresholdLow (setCusumThresholdHigh (cusumEntropy s ! j) qE) qLE]"
proof (cases "j < length (cusumEntropy s)")
  case True
  then show ?thesis by (simp add: setCusumTresholds_learned_def Let_def)
next
  case False
  then show ?thesis by (simp add: setCusumTresholds_learned_def Let_def list_update_beyond)
qed

lemma learned_fold_bytes:
  "n \<le> length (cusumBytes st) \<Longrightarrow>
   cusumBytes (fold (setCusumTresholds_learned qB qE qBR qP qLE qF) [0..<n] st)
     = map (\<lambda>j. if j < n then setCusumThresholdHigh (cusumBytes st ! j) qB
                 else cusumBytes st ! j) [0..<length (cusumBytes st)]"
proof (induction n)
  case 0
  show ?case by (simp add: map_nth)
next
  case (Suc n)
  then have n: "n < length (cusumBytes st)" by simp
  let ?X = "fold (setCusumTresholds_learned qB qE qBR qP qLE qF) [0..<n] st"
  have X: "cusumBytes ?X = map (\<lambda>j. if j < n then setCusumThresholdHigh (cusumBytes st ! j) qB
                 else cusumBytes st ! j) [0..<length (cusumBytes st)]"
    using Suc by simp
  have "cusumBytes (fold (setCusumTresholds_learned qB qE qBR qP qLE qF) [0..<Suc n] st)
        = (cusumBytes ?X)[n := setCusumThresholdHigh (cusumBytes ?X ! n) qB]"
    by (simp add: learned_column_bytes)
  also have "\<dots> = map (\<lambda>j. if j < Suc n then setCusumThresholdHigh (cusumBytes st ! j) qB
                 else cusumBytes st ! j) [0..<length (cusumBytes st)]"
    unfolding X
  proof (rule nth_equalityI, goal_cases)
    case 1
    show ?case by simp
  next
    case (2 i)
    then have i: "i < length (cusumBytes st)" by simp
    show ?case using i n by (cases "i = n") (simp_all add: nth_list_update less_Suc_eq)
  qed
  finally show ?case .
qed

lemma learned_fold_entropy:
  "n \<le> length (cusumEntropy st) \<Longrightarrow>
   cusumEntropy (fold (setCusumTresholds_learned qB qE qBR qP qLE qF) [0..<n] st)
     = map (\<lambda>j. if j < n
                 then setCusumThresholdLow (setCusumThresholdHigh (cusumEntropy st ! j) qE) qLE
                 else cusumEntropy st ! j) [0..<length (cusumEntropy st)]"
proof (induction n)
  case 0
  show ?case by (simp add: map_nth)
next
  case (Suc n)
  then have n: "n < length (cusumEntropy st)" by simp
  let ?X = "fold (setCusumTresholds_learned qB qE qBR qP qLE qF) [0..<n] st"
  have X: "cusumEntropy ?X = map (\<lambda>j. if j < n
                 then setCusumThresholdLow (setCusumThresholdHigh (cusumEntropy st ! j) qE) qLE
                 else cusumEntropy st ! j) [0..<length (cusumEntropy st)]"
    using Suc by simp
  have "cusumEntropy (fold (setCusumTresholds_learned qB qE qBR qP qLE qF) [0..<Suc n] st)
        = (cusumEntropy ?X)
            [n := setCusumThresholdLow (setCusumThresholdHigh (cusumEntropy ?X ! n) qE) qLE]"
    by (simp add: learned_column_entropy)
  also have "\<dots> = map (\<lambda>j. if j < Suc n
                 then setCusumThresholdLow (setCusumThresholdHigh (cusumEntropy st ! j) qE) qLE
                 else cusumEntropy st ! j) [0..<length (cusumEntropy st)]"
    unfolding X
  proof (rule nth_equalityI, goal_cases)
    case 1
    show ?case by simp
  next
    case (2 i)
    then have i: "i < length (cusumEntropy st)" by simp
    show ?case using i n by (cases "i = n") (simp_all add: nth_list_update less_Suc_eq)
  qed
  finally show ?case .
qed

text \<open>What the code installs in a silent column (one whose own maximum is not positive)
  at the end of a non-zero learning period.\<close>

lemma installed_backfill:
  assumes "learningSecs cfg \<noteq> 0"
    and "innerSizeDstIPs cfg = length (cusumBytes st)"
    and "innerSizeDstIPs cfg = length (cusumEntropy st)"
    and "j < innerSizeDstIPs cfg"
  shows "case setCusumTresholds cfg thresholdsCsv st of
           Inl e \<Rightarrow> False
         | Inr st' \<Rightarrow>
             thresholdHigh (cusumBytes st' ! j)
               = (if maxSH (cusumBytes st ! j) > 0 then maxSH (cusumBytes st ! j)
                  else getQuantileThresholdHigh cfg (cusumBytes st))
           \<and> thresholdLow (cusumEntropy st' ! j)
               = (if maxSL (cusumEntropy st ! j) > 0 then maxSL (cusumEntropy st ! j)
                  else getQuantileThresholdLow cfg (cusumEntropy st))"
  using assms
  by (simp add: setCusumTresholds_def Let_def learned_fold_bytes learned_fold_entropy
        setCusumThresholdHigh_def setCusumThresholdLow_def setThresholdHigh_def
        setThresholdLow_def del: upt_Suc)

text \<open>
  Claim C2, evaluated on the code. One column has seen traffic during learning and has
  \<open>maxSH = 2\<close> and \<open>maxSL = 5\<close>; the other column is silent. The quantile of the positive
  \<open>maxSH\<close> values is 2 and that of the positive \<open>maxSL\<close> values is 5, but
  \<^verbatim>\<open>getQuantileThresholdHigh\<close> returns 5 and \<^verbatim>\<open>getQuantileThresholdLow\<close> returns 2, and
  these are the thresholds that \<^verbatim>\<open>setCusumTresholds\<close> installs in the silent column.
\<close>

theorem quantile_threshold_swap:
  "maxSH acu_loud = 2 \<and> maxSL acu_loud = 5 \<and> maxSH acu_silent = 0 \<and> maxSL acu_silent = 0
   \<and> getQuantileSortedVec (sort [2]) (quantile cfg_ex) = 2
   \<and> getQuantileSortedVec (sort [5]) (quantile cfg_ex) = 5
   \<and> getQuantileThresholdHigh cfg_ex [acu_loud, acu_silent] = 5
   \<and> getQuantileThresholdLow cfg_ex [acu_loud, acu_silent] = 2
   \<and> (case setCusumTresholds (cfg_ex\<lparr>innerSizeDstIPs := 2\<rparr>) (\<lambda>j. None) st_learned of
        Inl e \<Rightarrow> False
      | Inr st' \<Rightarrow> thresholdHigh (cusumBytes st' ! 1) = 5
                  \<and> thresholdLow (cusumEntropy st' ! 1) = 2)"
proof -
  have qs: "getQuantileSortedVec [x] q = x" for x q :: real
    by (simp add: getQuantileSortedVec_def Let_def)
  have hi: "getQuantileThresholdHigh cfg [acu_loud, acu_silent] = 5" for cfg
    by (simp add: getQuantileThresholdHigh_def acu_loud_max acu_silent_max qs)
  have lo: "getQuantileThresholdLow cfg [acu_loud, acu_silent] = 2" for cfg
    by (simp add: getQuantileThresholdLow_def acu_loud_max acu_silent_max qs)
  have cb: "cusumBytes st_learned = [acu_loud, acu_silent]"
    and ce: "cusumEntropy st_learned = [acu_loud, acu_silent]"
    by (simp_all add: st_learned_def)
  have a1: "learningSecs (cfg_ex\<lparr>innerSizeDstIPs := 2\<rparr>) \<noteq> 0"
    by (simp add: cfg_ex_def)
  have a2: "innerSizeDstIPs (cfg_ex\<lparr>innerSizeDstIPs := 2\<rparr>) = length (cusumBytes st_learned)"
    by (simp add: cb)
  have a3: "innerSizeDstIPs (cfg_ex\<lparr>innerSizeDstIPs := 2\<rparr>) = length (cusumEntropy st_learned)"
    by (simp add: ce)
  have a4: "1 < innerSizeDstIPs (cfg_ex\<lparr>innerSizeDstIPs := 2\<rparr>)"
    by simp
  have set: "case setCusumTresholds (cfg_ex\<lparr>innerSizeDstIPs := 2\<rparr>) (\<lambda>j. None) st_learned of
        Inl e \<Rightarrow> False
      | Inr st' \<Rightarrow> thresholdHigh (cusumBytes st' ! 1) = 5
                  \<and> thresholdLow (cusumEntropy st' ! 1) = 2"
    using installed_backfill [OF a1 a2 a3 a4, of "\<lambda>j. None"]
    by (simp add: cb ce hi lo acu_silent_max split: sum.splits)
  show ?thesis
    using set by (simp add: acu_loud_max acu_silent_max qs hi lo)
qed

section \<open>Ingress\<close>

text \<open>What the loop of \<^verbatim>\<open>updateCommunicatedWith\<close> does to row \<open>i\<close> for a flow sent by a
  protected source.\<close>

definition sent_row :: "hashes \<Rightarrow> 32 word \<Rightarrow> 64 word \<Rightarrow> nat
    \<Rightarrow> ddosDetectorValue Cell list \<Rightarrow> ddosDetectorValue Cell list" where
  "sent_row h key b i row =
     row[h i key mod length row := sentBytesCell b (row ! (h i key mod length row))]"

lemma updateCommunicatedWith_row_sent:
  "updateCommunicatedWith_row cfg srcs srcIP dstIP' b False
     = (\<lambda>i d. d[i := sent_row (hashDst cfg) (srcIP AND 0x00FFFFFF) b i (d ! i)])"
  by (simp add: fun_eq_iff updateCommunicatedWith_row_def modify_cell_def getCol_def
        sent_row_def Let_def)

lemma updateCommunicatedWith_sent_rows:
  assumes "outerSizeDstIPs cfg = length (dstIPs st)"
  shows "dstIPs (updateCommunicatedWith cfg st srcIP dstIP' b False)
         = map (\<lambda>i. sent_row (hashDst cfg) (srcIP AND 0x00FFFFFF) b i (dstIPs st ! i))
               [0..<length (dstIPs st)]"
proof -
  have "fold (\<lambda>i d. d[i := sent_row (hashDst cfg) (srcIP AND 0x00FFFFFF) b i (d ! i)])
             [0..<length (dstIPs st)] (dstIPs st)
        = map (\<lambda>i. if i < length (dstIPs st)
                     then sent_row (hashDst cfg) (srcIP AND 0x00FFFFFF) b i (dstIPs st ! i)
                     else dstIPs st ! i) [0..<length (dstIPs st)]"
    by (rule fold_pointwise) simp
  also have "\<dots> = map (\<lambda>i. sent_row (hashDst cfg) (srcIP AND 0x00FFFFFF) b i (dstIPs st ! i))
               [0..<length (dstIPs st)]"
    by (rule map_cong) simp_all
  finally show ?thesis
    by (simp add: updateCommunicatedWith_def assms updateCommunicatedWith_row_sent)
qed

lemma updateCommunicatedWith_frame:
  "(updateCommunicatedWith cfg st srcIP dstIP' b isDst)\<lparr>dstIPs := dstIPs st\<rparr> = st"
  by (simp add: updateCommunicatedWith_def)

lemma sentBytesCell_eq:
  "sentBytesCell b cell =
     cell\<lparr>value := (value cell)\<lparr>sentBytes := sentBytes (value cell) + b,
                                   sentFlows := sentFlows (value cell) + 1\<rparr>\<rparr>"
  by (simp add: sentBytesCell_def updateSentBytes_def Let_def)

text \<open>
  Claim C9, as amended. On sketches without an empty row (the column of a key is a
  remainder by the row length), with as many rows in the destination sketch as
  \<open>outerSizeDstIPs\<close>: for a flow whose destination is not protected and whose source
  is protected, \<^verbatim>\<open>processCurrentFlow\<close> adds the flow's bytes to \<open>sentBytes\<close> and 1 to
  \<open>sentFlows\<close> of the destination-sketch cell selected in each row by the source's /24
  prefix, leaves every other cell of the destination sketch as it was, inserts the
  source address with weight 1 into the source sketch, and changes nothing else; a flow
  where neither address is protected changes nothing.
\<close>

theorem protected_source_flow:
  assumes "\<not> isProtected cfg (dstAddr r)"
    and "outerSizeDstIPs cfg = length (dstIPs st)"
    and "\<forall>row \<in> set (dstIPs st). row \<noteq> []"
    and "\<forall>row \<in> set (srcIPs st). row \<noteq> []"
  shows "(isProtected cfg (srcAddr r) \<longrightarrow>
           (let st' = processCurrentFlow cfg st r in
              (\<forall>i < length (dstIPs st). \<forall>j < length (dstIPs st ! i).
                  dstIPs st' ! i ! j =
                    (if j = getCol (hashDst cfg) (dstIPs st) (srcAddr r AND 0x00FFFFFF) i
                     then (dstIPs st ! i ! j)
                            \<lparr>value := (value (dstIPs st ! i ! j))
                               \<lparr>sentBytes := sentBytes (value (dstIPs st ! i ! j)) + bytes r,
                                sentFlows := sentFlows (value (dstIPs st ! i ! j)) + 1\<rparr>\<rparr>
                     else dstIPs st ! i ! j))
            \<and> length (dstIPs st') = length (dstIPs st)
            \<and> (\<forall>i < length (dstIPs st). length (dstIPs st' ! i) = length (dstIPs st ! i))
            \<and> srcIPs st' = CountMinSketch_update binCountSketchValue_update (hashSrc cfg)
                              (srcIPs st) (srcAddr r) 1
            \<and> st'\<lparr>dstIPs := dstIPs st, srcIPs := srcIPs st\<rparr> = st))
       \<and> (\<not> isProtected cfg (srcAddr r) \<longrightarrow> processCurrentFlow cfg st r = st)"
proof (intro conjI impI)
  assume ps: "isProtected cfg (srcAddr r)"
  define u where "u = updateCommunicatedWith cfg st (srcAddr r) (dstAddr r) (bytes r) False"
  define st' where "st' = processCurrentFlow cfg st r"
  have st': "st' = u\<lparr>srcIPs := CountMinSketch_update binCountSketchValue_update (hashSrc cfg)
                                  (srcIPs u) (srcAddr r) 1\<rparr>"
    using assms(1) ps by (simp add: st'_def processCurrentFlow_def u_def Let_def)
  have us: "srcIPs u = srcIPs st"
    by (simp add: u_def updateCommunicatedWith_def)
  have ud: "dstIPs u = map (\<lambda>i. sent_row (hashDst cfg) (srcAddr r AND 0x00FFFFFF) (bytes r) i
                                   (dstIPs st ! i)) [0..<length (dstIPs st)]"
    unfolding u_def by (rule updateCommunicatedWith_sent_rows [OF assms(2)])
  have uf: "u\<lparr>dstIPs := dstIPs st\<rparr> = st"
    unfolding u_def by (rule updateCommunicatedWith_frame)
  have d: "dstIPs st' = dstIPs u"
    by (simp add: st')
  have cells: "\<forall>i < length (dstIPs st). \<forall>j < length (dstIPs st ! i).
      dstIPs st' ! i ! j =
        (if j = getCol (hashDst cfg) (dstIPs st) (srcAddr r AND 0x00FFFFFF) i
         then (dstIPs st ! i ! j)
                \<lparr>value := (value (dstIPs st ! i ! j))
                   \<lparr>sentBytes := sentBytes (value (dstIPs st ! i ! j)) + bytes r,
                    sentFlows := sentFlows (value (dstIPs st ! i ! j)) + 1\<rparr>\<rparr>
         else dstIPs st ! i ! j)"
    unfolding d ud
    by (auto simp: sent_row_def getCol_def sentBytesCell_eq nth_list_update simp del: upt_Suc)
  have len: "length (dstIPs st') = length (dstIPs st)"
    unfolding d ud by simp
  have lens: "\<forall>i < length (dstIPs st). length (dstIPs st' ! i) = length (dstIPs st ! i)"
    unfolding d ud by (simp add: sent_row_def del: upt_Suc)
  have src: "srcIPs st' = CountMinSketch_update binCountSketchValue_update (hashSrc cfg)
                              (srcIPs st) (srcAddr r) 1"
    by (simp add: st' us)
  have frame: "st'\<lparr>dstIPs := dstIPs st, srcIPs := srcIPs st\<rparr> = st"
  proof -
    have "st'\<lparr>dstIPs := dstIPs st, srcIPs := srcIPs st\<rparr>
          = (u\<lparr>dstIPs := dstIPs st\<rparr>)\<lparr>srcIPs := srcIPs st\<rparr>"
      by (simp add: st')
    also have "\<dots> = st" unfolding uf by simp
    finally show ?thesis .
  qed
  from cells len lens src frame
  show "let st' = processCurrentFlow cfg st r in
              (\<forall>i < length (dstIPs st). \<forall>j < length (dstIPs st ! i).
                  dstIPs st' ! i ! j =
                    (if j = getCol (hashDst cfg) (dstIPs st) (srcAddr r AND 0x00FFFFFF) i
                     then (dstIPs st ! i ! j)
                            \<lparr>value := (value (dstIPs st ! i ! j))
                               \<lparr>sentBytes := sentBytes (value (dstIPs st ! i ! j)) + bytes r,
                                sentFlows := sentFlows (value (dstIPs st ! i ! j)) + 1\<rparr>\<rparr>
                     else dstIPs st ! i ! j))
            \<and> length (dstIPs st') = length (dstIPs st)
            \<and> (\<forall>i < length (dstIPs st). length (dstIPs st' ! i) = length (dstIPs st ! i))
            \<and> srcIPs st' = CountMinSketch_update binCountSketchValue_update (hashSrc cfg)
                              (srcIPs st) (srcAddr r) 1
            \<and> st'\<lparr>dstIPs := dstIPs st, srcIPs := srcIPs st\<rparr> = st"
    unfolding Let_def st'_def by blast
next
  assume "\<not> isProtected cfg (srcAddr r)"
  with assms(1) show "processCurrentFlow cfg st r = st"
    by (simp add: processCurrentFlow_def)
qed

text \<open>A flow from 10.0.0.5, which is protected, to 7.0.0.0, which is not.\<close>

definition flow_back :: netflowRecord where
  "flow_back = \<lparr>srcAddr = 0x0500000A, dstAddr = 7, packets = 1, bytes = 100\<rparr>"

theorem protected_source_flow_witness:
  "\<not> isProtected cfg_ex (dstAddr flow_back) \<and> isProtected cfg_ex (srcAddr flow_back)
   \<and> outerSizeDstIPs cfg_ex = length (dstIPs ingress_ex)
   \<and> [] \<notin> set (dstIPs ingress_ex) \<and> [] \<notin> set (srcIPs ingress_ex)
   \<and> (let st' = processCurrentFlow cfg_ex ingress_ex flow_back in
        sentBytes (value (dstIPs st' ! 0 ! 0)) = 100
      \<and> sentFlows (value (dstIPs st' ! 0 ! 0)) = 1
      \<and> count (dstIPs st' ! 0 ! 0) = 0
      \<and> count (srcIPs st' ! 0 ! 0) = 1)"
proof -
  have h1: "\<not> isProtected cfg_ex (dstAddr flow_back)"
    by (simp add: isProtected_def cfg_ex_def flow_back_def)
  have h2: "outerSizeDstIPs cfg_ex = length (dstIPs ingress_ex)"
    by (simp add: cfg_ex_def ingress_ex_def CountMinSketch_new_def)
  have h3: "isProtected cfg_ex (srcAddr flow_back)"
    by (simp add: isProtected_def cfg_ex_def flow_back_def)
  have h4: "\<forall>row \<in> set (dstIPs ingress_ex). row \<noteq> []"
    and h5: "\<forall>row \<in> set (srcIPs ingress_ex). row \<noteq> []"
    by (simp_all add: ingress_ex_def CountMinSketch_new_def)
  have src: "srcIPs (processCurrentFlow cfg_ex ingress_ex flow_back)
      = CountMinSketch_update binCountSketchValue_update (hashSrc cfg_ex)
          (srcIPs ingress_ex) (srcAddr flow_back) 1"
    using protected_source_flow [OF h1 h2 h4 h5] h3 unfolding Let_def by blast
  have ev: "let st' = processCurrentFlow cfg_ex ingress_ex flow_back in
        sentBytes (value (dstIPs st' ! 0 ! 0)) = 100
      \<and> sentFlows (value (dstIPs st' ! 0 ! 0)) = 1
      \<and> count (dstIPs st' ! 0 ! 0) = 0
      \<and> count (srcIPs st' ! 0 ! 0) = 1"
    by code_simp
  from h4 h5 have "[] \<notin> set (dstIPs ingress_ex) \<and> [] \<notin> set (srcIPs ingress_ex)"
    by blast
  with h1 h2 h3 src ev show ?thesis by blast
qed

theorem protected_source_flow_counterexample:
  "\<not> isProtected cfg_ex (dstAddr flow_back) \<and> isProtected cfg_ex (srcAddr flow_back)
   \<and> srcIPs (processCurrentFlow cfg_ex ingress_ex flow_back) \<noteq> srcIPs ingress_ex
   \<and> count (srcIPs ingress_ex ! 0 ! 0) = 0
   \<and> count (srcIPs (processCurrentFlow cfg_ex ingress_ex flow_back) ! 0 ! 0) = 1"
proof -
  have ev: "\<not> isProtected cfg_ex (dstAddr flow_back) \<and> isProtected cfg_ex (srcAddr flow_back)
     \<and> count (srcIPs ingress_ex ! 0 ! 0) = 0
     \<and> count (srcIPs (processCurrentFlow cfg_ex ingress_ex flow_back) ! 0 ! 0) = 1"
    by code_simp
  then have "srcIPs (processCurrentFlow cfg_ex ingress_ex flow_back) \<noteq> srcIPs ingress_ex"
    by auto
  with ev show ?thesis by blast
qed

section \<open>Reversal of the source addresses\<close>

text \<open>The \<^verbatim>\<open>while\<close> loop appends nothing or one pair: after a pass that does not leave
  through \<^verbatim>\<open>break\<close>, \<open>prevCnt\<close> is the count that the loop test reads again from the
  unchanged sketch.\<close>

lemma reverseSrcIPs_while_stop:
  "prevCnt = count (srcIPsCopy ! row ! unat (fst srcIPidx)) \<Longrightarrow>
   reverseSrcIPs_while h srcIPsCopy row srcIPidx prevCnt vec = vec"
  by (subst reverseSrcIPs_while.simps) simp

lemma reverseSrcIPs_while_once:
  "reverseSrcIPs_while h srcIPsCopy row srcIPidx prevCnt vec = vec
   \<or> reverseSrcIPs_while h srcIPsCopy row srcIPidx prevCnt vec
       = vec @ [(binCountSketchValue_reverseKey
                   (value (srcIPsCopy ! row ! unat (fst srcIPidx))), snd srcIPidx)]"
  by (subst (1 2) reverseSrcIPs_while_code) (simp add: reverseSrcIPs_while_stop)

lemma reverseSrcIPs_while_length:
  "\<exists>new. reverseSrcIPs_while h srcIPsCopy row srcIPidx prevCnt vec = vec @ new
         \<and> length new \<le> 1"
  using reverseSrcIPs_while_once [of h srcIPsCopy row srcIPidx prevCnt vec]
  by (metis append_Nil2 le_numeral_extra(4) length_Cons list.size(3) One_nat_def zero_le_one)

lemma reverseSrcIPs_appends:
  "reverseSrcIPs h communicatedWith' vec rows srcIPsCopy = Inr vec' \<Longrightarrow>
   \<exists>new. vec' = vec @ new \<and> length new \<le> length communicatedWith'"
proof (induction communicatedWith' arbitrary: vec)
  case Nil
  then show ?case by simp
next
  case (Cons e es)
  from Cons.prems obtain row where
    row: "map_of rows (fst e) = Some row"
    and rng: "unat row < length srcIPsCopy" "unat (fst e) < length (srcIPsCopy ! unat row)"
    and rec: "reverseSrcIPs h es (reverseSrcIPs_while h srcIPsCopy (unat row) e 0 vec)
                rows srcIPsCopy = Inr vec'"
    by (auto split: option.splits if_splits)
  obtain new1 where new1: "reverseSrcIPs_while h srcIPsCopy (unat row) e 0 vec = vec @ new1"
    "length new1 \<le> 1"
    using reverseSrcIPs_while_length by blast
  from Cons.IH [OF rec] obtain new2 where
    new2: "vec' = (reverseSrcIPs_while h srcIPsCopy (unat row) e 0 vec) @ new2"
    "length new2 \<le> length es"
    by blast
  have "vec' = vec @ (new1 @ new2)" "length (new1 @ new2) \<le> length (e # es)"
    using new1 new2 by simp_all
  then show ?case by blast
qed

lemma reverseSrcIPs_returns:
  "(\<forall>e \<in> set communicatedWith'.
      \<exists>row. map_of rows (fst e) = Some row \<and> unat row < length srcIPsCopy
            \<and> unat (fst e) < length (srcIPsCopy ! unat row))
   \<Longrightarrow> \<exists>vec'. reverseSrcIPs h communicatedWith' vec rows srcIPsCopy = Inr vec'"
  by (induction communicatedWith' arbitrary: vec) auto

text \<open>
  Claim C10. \<^verbatim>\<open>reverseSrcIPs\<close> terminates for every \<^verbatim>\<open>communicatedWith\<close> map, rows map
  and snapshot of the source sketch (the model is a total function: it returns the
  vector, or the error that stands for the exception of \<^verbatim>\<open>rows.at\<close> or for an index
  outside the sketch); when it returns the vector, it has appended at most one pair per
  entry of \<^verbatim>\<open>communicatedWith\<close>; it does return the vector when every entry has its row
  in \<open>rows\<close> and names a cell of the sketch; and the \<^verbatim>\<open>while\<close> loop of an entry appends
  either nothing or the one pair (recovered address, flow count of the entry), whatever
  \<open>prevCnt\<close> it starts from.
\<close>

theorem reverseSrcIPs_at_most_one_per_entry:
  "(case reverseSrcIPs h communicatedWith' vec rows srcIPsCopy of
      Inl e \<Rightarrow> e = OutOfRange \<or> e = IndexOutOfBounds
    | Inr vec' \<Rightarrow> \<exists>new. vec' = vec @ new \<and> length new \<le> length communicatedWith')
   \<and> ((\<forall>e \<in> set communicatedWith'.
          \<exists>row. map_of rows (fst e) = Some row \<and> unat row < length srcIPsCopy
                \<and> unat (fst e) < length (srcIPsCopy ! unat row))
        \<longrightarrow> (\<exists>new. reverseSrcIPs h communicatedWith' vec rows srcIPsCopy = Inr (vec @ new)
                    \<and> length new \<le> length communicatedWith'))
   \<and> (reverseSrcIPs_while h srcIPsCopy row srcIPidx prevCnt vec = vec
        \<or> reverseSrcIPs_while h srcIPsCopy row srcIPidx prevCnt vec
            = vec @ [(binCountSketchValue_reverseKey
                        (value (srcIPsCopy ! row ! unat (fst srcIPidx))), snd srcIPidx)])"
proof (intro conjI impI)
  show "case reverseSrcIPs h communicatedWith' vec rows srcIPsCopy of
      Inl e \<Rightarrow> e = OutOfRange \<or> e = IndexOutOfBounds
    | Inr vec' \<Rightarrow> \<exists>new. vec' = vec @ new \<and> length new \<le> length communicatedWith'"
  proof (cases "reverseSrcIPs h communicatedWith' vec rows srcIPsCopy")
    case (Inl e)
    have "reverseSrcIPs h communicatedWith' vec rows srcIPsCopy = Inl e \<Longrightarrow>
          e = OutOfRange \<or> e = IndexOutOfBounds"
      by (induction communicatedWith' arbitrary: vec) (auto split: option.splits if_splits)
    with Inl show ?thesis by simp
  next
    case (Inr vec')
    with reverseSrcIPs_appends [OF Inr] show ?thesis by simp
  qed
next
  assume "\<forall>e \<in> set communicatedWith'.
          \<exists>row. map_of rows (fst e) = Some row \<and> unat row < length srcIPsCopy
                \<and> unat (fst e) < length (srcIPsCopy ! unat row)"
  from reverseSrcIPs_returns [OF this, of h vec] obtain vec'
    where r: "reverseSrcIPs h communicatedWith' vec rows srcIPsCopy = Inr vec'" by blast
  from reverseSrcIPs_appends [OF r] r
  show "\<exists>new. reverseSrcIPs h communicatedWith' vec rows srcIPsCopy = Inr (vec @ new)
              \<and> length new \<le> length communicatedWith'"
    by blast
next
  show "reverseSrcIPs_while h srcIPsCopy row srcIPidx prevCnt vec = vec
        \<or> reverseSrcIPs_while h srcIPsCopy row srcIPidx prevCnt vec
            = vec @ [(binCountSketchValue_reverseKey
                        (value (srcIPsCopy ! row ! unat (fst srcIPidx))), snd srcIPidx)]"
    by (rule reverseSrcIPs_while_once)
qed

theorem reverseSrcIPs_at_most_one_per_entry_witness:
  "map_of [(0 :: 32 word, 0 :: 32 word)] (fst (0 :: 32 word, 1 :: 32 word)) = Some 0
   \<and> unat (0 :: 32 word) < length srcSnap_ex
   \<and> unat (fst (0 :: 32 word, 1 :: 32 word)) < length (srcSnap_ex ! unat (0 :: 32 word))
   \<and> reverseSrcIPs (hashSrc cfg_ex) [(0, 1)] [] [(0, 0)] srcSnap_ex = Inr [(7, 1)]
   \<and> length [(7 :: 32 word, 1 :: 32 word)] \<le> length [(0 :: 32 word, 1 :: 32 word)]"
proof -
  have ev: "map_of [(0 :: 32 word, 0 :: 32 word)] (fst (0 :: 32 word, 1 :: 32 word)) = Some 0
   \<and> unat (0 :: 32 word) < length srcSnap_ex
   \<and> unat (fst (0 :: 32 word, 1 :: 32 word)) < length (srcSnap_ex ! unat (0 :: 32 word))
   \<and> reverseSrcIPs (hashSrc cfg_ex) [(0, 1)] [] [(0, 0)] srcSnap_ex = Inr [(7, 1)]"
    by code_simp
  then have pre: "\<forall>e \<in> set [(0 :: 32 word, 1 :: 32 word)].
          \<exists>row. map_of [(0 :: 32 word, 0 :: 32 word)] (fst e) = Some row
                \<and> unat row < length srcSnap_ex
                \<and> unat (fst e) < length (srcSnap_ex ! unat row)"
    by simp
  have "\<exists>new. reverseSrcIPs (hashSrc cfg_ex) [(0, 1)] [] [(0, 0)] srcSnap_ex = Inr ([] @ new)
              \<and> length new \<le> length [(0 :: 32 word, 1 :: 32 word)]"
    using reverseSrcIPs_at_most_one_per_entry
            [where h = "hashSrc cfg_ex" and communicatedWith' = "[(0, 1)]" and vec = "[]"
               and rows = "[(0, 0)]" and srcIPsCopy = srcSnap_ex] pre
    by blast
  with ev show ?thesis by auto
qed

section \<open>Reversal of a destination column\<close>

subsection \<open>The sketch operations, row by row\<close>








subsection \<open>The point estimate\<close>





subsection \<open>A column that holds a single key\<close>





subsection \<open>The sketch after flows to a single protected prefix\<close>

























end
